theory Spec2Isabelle
  imports Main "HOL-Library.AList"
begin

section \<open>Composing a multi-input model from single-input checkpoints\<close>

text \<open>
  A shallow embedding of \<^verbatim>\<open>tools/create_multi_input_model.py\<close>. The script loads
  every checkpoint named on the command line, installs the \<^verbatim>\<open>Conv_Body\<close> parameters of
  checkpoint \<open>i\<close> into \<^verbatim>\<open>model.Conv_Body.bodies[i]\<close>, installs the other parameters of
  the checkpoint at \<^verbatim>\<open>--head-weights-index\<close> into the model's other children, runs
  \<^verbatim>\<open>init_conv_select_index_\<close> when the muxer is a \<^verbatim>\<open>BodyMuxer_ConcatenateConv\<close>, and
  saves the model's state dict.
\<close>

subsection \<open>Data\<close>

text \<open>
  A tensor is its shape and its contents; the contents stay abstract. A Python
  \<^verbatim>\<open>dict\<close> is an association list in insertion order whose keys are written with
  \<^const>\<open>AList.update\<close>: storing under a key that is present replaces the value in
  place, as the dict does.
\<close>

record 'a tensor =
  shape :: "nat list"
  data :: 'a

type_synonym 'a state_dict = "(string \<times> 'a tensor) list"

text \<open>A module is the ordered mapping that its \<^verbatim>\<open>state_dict()\<close> returns.\<close>

type_synonym 'a module = "'a state_dict"

text \<open>The exceptions that the script can raise.\<close>

datatype error =
    FileNotFoundError
  | KeyError string
  | IndexError
  | ValueError
  | AssertionError
  | RuntimeError
  | TypeError

text \<open>Whether \<^verbatim>\<open>model.Conv_Body\<close> is an instance of \<^verbatim>\<open>BodyMuxer_ConcatenateConv\<close>.\<close>

datatype muxer_class = BodyMuxer_ConcatenateConv | BodyMuxer_Other

text \<open>
  Modelled from the spec: the muxer classes of \<^verbatim>\<open>modeling/body_muxer.py\<close> are not among
  the sources. A muxer holds \<open>N\<close> backbone slots (\<^verbatim>\<open>Conv_Body.bodies\<close>, indexed as a
  list) and its own parameters (the selection step of the concatenate-and-select variant).
\<close>

record 'a body_muxer =
  muxer_class :: muxer_class
  bodies :: "'a module list"
  own :: "'a module"

text \<open>
  Modelled from the spec: \<^verbatim>\<open>Generalized_RCNN\<close> of \<^verbatim>\<open>modeling/model_builder.py\<close> is not
  among the sources. The target model holds the muxer and the head submodules
  (\<^verbatim>\<open>model._modules\<close> without \<^verbatim>\<open>Conv_Body\<close>, by name); the slots and the head
  submodules are disjoint mutation targets, so no tensor belongs to two modules.
\<close>

record 'a rcnn =
  Conv_Body :: "'a body_muxer"
  children :: "(string \<times> 'a module) list"

text \<open>
  A checkpoint file is the pickled top-level dict; \<^verbatim>\<open>torch.load(path)['model']\<close>
  reads its \<^verbatim>\<open>'model'\<close> entry.
\<close>

type_synonym 'a checkpoint_file = "(string \<times> 'a state_dict) list"

type_synonym 'a filesystem = "string \<rightharpoonup> 'a checkpoint_file"

text \<open>The parsed command line. \<^verbatim>\<open>--body-checkpoints\<close> is not required, so it may be \<^verbatim>\<open>None\<close>.\<close>

record args =
  body_checkpoints :: "string list option"
  config :: string
  head_weights_index :: int
  output_model :: string
  num_classes :: int

text \<open>
  The calls that populate parameters, in the order the run makes them:
  \<open>Load_Body slot i\<close> is \<^verbatim>\<open>bodies[slot].load_state_dict\<close> fed from checkpoint \<open>i\<close>,
  \<open>Load_Child child i\<close> is \<^verbatim>\<open>_modules[child].load_state_dict\<close> fed from checkpoint
  \<open>i\<close>, \<open>Init_Conv_Select k\<close> is \<^verbatim>\<open>init_conv_select_index_(k)\<close>.
\<close>

datatype call = Load_Body nat nat | Load_Child string nat | Init_Conv_Select int

subsection \<open>String operations\<close>

definition startswith :: "string \<Rightarrow> string \<Rightarrow> bool" where
  "startswith s p = (take (length p) s = p)"

text \<open>\<^verbatim>\<open>key.split('.', 1)\<close>: one element without a dot, else the text before and after the first dot.\<close>

definition split1 :: "string \<Rightarrow> string list" where
  "split1 key =
     (if CHR ''.'' \<in> set key
      then [takeWhile (\<lambda>c. c \<noteq> CHR ''.'') key, tl (dropWhile (\<lambda>c. c \<noteq> CHR ''.'') key)]
      else [key])"

text \<open>\<^verbatim>\<open>str(i)\<close> for the index of a backbone slot in a parameter path.\<close>

definition digit :: "nat \<Rightarrow> char" where
  "digit d = ''0123456789'' ! d"

fun str_nat :: "nat \<Rightarrow> string" where
  "str_nat n = (if n < 10 then [digit n] else str_nat (n div 10) @ [digit (n mod 10)])"

declare str_nat.simps [simp del]

subsection \<open>The external operations\<close>

text \<open>\<^verbatim>\<open>torch.load(checkpoint_path)['model']\<close>.\<close>

definition torch_load_model :: "'a filesystem \<Rightarrow> string \<Rightarrow> error + 'a state_dict" where
  "torch_load_model fs path =
     (case fs path of
        None \<Rightarrow> Inl FileNotFoundError
      | Some f \<Rightarrow>
          (case map_of f ''model'' of
             None \<Rightarrow> Inl (KeyError ''model'')
           | Some checkpoint \<Rightarrow> Inr checkpoint))"

text \<open>
  \<^verbatim>\<open>Module.load_state_dict(state_dict)\<close> with the default \<^verbatim>\<open>strict=True\<close>: an
  unexpected key, a missing key or a tensor of another shape raises; otherwise every
  parameter of the module takes the value stored under its name.
\<close>

definition load_state_dict :: "'a module \<Rightarrow> 'a state_dict \<Rightarrow> error + 'a module" where
  "load_state_dict m sd =
     (if \<not> list_all (\<lambda>k. k \<in> set (map fst m)) (map fst sd) then Inl RuntimeError
      else if \<not> list_all (\<lambda>k. k \<in> set (map fst sd)) (map fst m) then Inl RuntimeError
      else if \<not> list_all (\<lambda>(k, t). map_option shape (map_of sd k) = Some (shape t)) m
        then Inl RuntimeError
      else Inr (map (\<lambda>(k, t). (k, the (map_of sd k))) m))"

text \<open>\<^verbatim>\<open>model.state_dict()\<close>: the parameter paths of the bodies, of the muxer and of the heads.\<close>

definition state_entries :: "'a rcnn \<Rightarrow> (string \<times> 'a tensor) list" where
  "state_entries model =
     concat (map (\<lambda>(i, body). map (\<lambda>(k, t). (''Conv_Body.bodies.'' @ str_nat i @ ''.'' @ k, t)) body)
                 (enumerate 0 (bodies (Conv_Body model))))
     @ map (\<lambda>(k, t). (''Conv_Body.'' @ k, t)) (own (Conv_Body model))
     @ concat (map (\<lambda>(child, m). map (\<lambda>(k, t). (child @ ''.'' @ k, t)) m) (children model))"

definition state_dict :: "'a rcnn \<Rightarrow> 'a state_dict" where
  "state_dict model = fold (\<lambda>(k, t) d. AList.update k t d) (state_entries model) []"

text \<open>\<^verbatim>\<open>torch.save({'model': model.state_dict()}, path)\<close>.\<close>

definition torch_save :: "'a rcnn \<Rightarrow> string \<Rightarrow> 'a filesystem \<Rightarrow> 'a filesystem" where
  "torch_save model path fs = fs(path \<mapsto> [(''model'', state_dict model)])"

subsection \<open>The script\<close>

text \<open>
  Lines 62-65, the dict comprehension
  \<^verbatim>\<open>{key.split('.', 1)[-1]: value for key, value in checkpoint.items() if key.startswith('Conv_Body')}\<close>.
\<close>

definition body_state_dict :: "'a state_dict \<Rightarrow> 'a state_dict" where
  "body_state_dict checkpoint =
     fold (\<lambda>(key, value) d.
             if startswith key ''Conv_Body'' then AList.update (last (split1 key)) value d else d)
          checkpoint []"

text \<open>
  Lines 69-75, the loop that fills \<^verbatim>\<open>children_state_dicts\<close>. Unpacking a split
  without a dot raises \<^verbatim>\<open>ValueError\<close>; the \<^verbatim>\<open>assert\<close> raises \<^verbatim>\<open>AssertionError\<close>.
\<close>

fun children_state_dicts ::
  "'a state_dict \<Rightarrow> (string \<times> 'a state_dict) list \<Rightarrow> error + (string \<times> 'a state_dict) list" where
  "children_state_dicts [] csd = Inr csd"
| "children_state_dicts ((key, value) # rest) csd =
     (if startswith key ''Conv_Body'' then children_state_dicts rest csd
      else
        (case split1 key of
           [child, child_key] \<Rightarrow>
             (let d = (case map_of csd child of None \<Rightarrow> [] | Some d \<Rightarrow> d) in
              if child_key \<in> set (map fst d) then Inl AssertionError
              else children_state_dicts rest
                     (AList.update child (AList.update child_key value d) csd))
         | _ \<Rightarrow> Inl ValueError))"

text \<open>
  Lines 77-78. A child starts with no \<^verbatim>\<open>Conv_Body\<close>, since its key does not, so the lookup
  in \<^verbatim>\<open>model._modules\<close> never reaches the muxer.
\<close>

fun install_children ::
  "nat \<Rightarrow> (string \<times> 'a state_dict) list \<Rightarrow> 'a rcnn \<times> call list \<Rightarrow> error + ('a rcnn \<times> call list)" where
  "install_children i [] st = Inr st"
| "install_children i ((child, child_state_dict) # rest) (model, calls) =
     (case map_of (children model) child of
        None \<Rightarrow> Inl (KeyError child)
      | Some m \<Rightarrow>
          (case load_state_dict m child_state_dict of
             Inl e \<Rightarrow> Inl e
           | Inr m' \<Rightarrow>
               install_children i rest
                 (model\<lparr>children := AList.update child m' (children model)\<rparr>,
                  calls @ [Load_Child child i])))"

text \<open>Lines 68-78, the branch for the checkpoint at the head-weights index.\<close>

definition load_heads ::
  "nat \<Rightarrow> 'a state_dict \<Rightarrow> 'a rcnn \<times> call list \<Rightarrow> error + ('a rcnn \<times> call list)" where
  "load_heads i checkpoint st =
     (case children_state_dicts checkpoint [] of
        Inl e \<Rightarrow> Inl e
      | Inr csd \<Rightarrow> install_children i csd st)"

text \<open>Line 66: \<^verbatim>\<open>model.Conv_Body.bodies[i].load_state_dict(body_state_dict)\<close>.\<close>

definition load_body ::
  "nat \<Rightarrow> 'a state_dict \<Rightarrow> 'a rcnn \<times> call list \<Rightarrow> error + ('a rcnn \<times> call list)" where
  "load_body i sd st =
     (case st of (model, calls) \<Rightarrow>
        if length (bodies (Conv_Body model)) \<le> i then Inl IndexError
        else
          (case load_state_dict (bodies (Conv_Body model) ! i) sd of
             Inl e \<Rightarrow> Inl e
           | Inr body \<Rightarrow>
               Inr (model\<lparr>Conv_Body := (Conv_Body model)\<lparr>bodies := (bodies (Conv_Body model))[i := body]\<rparr>\<rparr>,
                    calls @ [Load_Body i i])))"

text \<open>Lines 60-78, the loop over \<^verbatim>\<open>enumerate(args.body_checkpoints)\<close> from index \<open>i\<close> on.\<close>

fun assemble ::
  "'a filesystem \<Rightarrow> int \<Rightarrow> nat \<Rightarrow> string list \<Rightarrow> 'a rcnn \<times> call list \<Rightarrow> error + ('a rcnn \<times> call list)" where
  "assemble fs hwi i [] st = Inr st"
| "assemble fs hwi i (checkpoint_path # rest) st =
     (case torch_load_model fs checkpoint_path of
        Inl e \<Rightarrow> Inl e
      | Inr checkpoint \<Rightarrow>
          (case load_body i (body_state_dict checkpoint) st of
             Inl e \<Rightarrow> Inl e
           | Inr st1 \<Rightarrow>
               (case (if int i = hwi then load_heads i checkpoint st1 else Inr st1) of
                  Inl e \<Rightarrow> Inl e
                | Inr st2 \<Rightarrow> assemble fs hwi (Suc i) rest st2)))"

text \<open>
  Modelled from the spec: \<^verbatim>\<open>init_conv_select_index_\<close> is defined in
  \<^verbatim>\<open>modeling/body_muxer.py\<close>, which is not among the sources; it re-initializes the
  selection step's weights, so it is a parameter that maps the index and the muxer's own
  parameters to new ones, or raises. The step itself is lines 80-84.
\<close>

definition post_init ::
  "(int \<Rightarrow> 'a module \<Rightarrow> error + 'a module) \<Rightarrow> int \<Rightarrow> 'a rcnn \<times> call list \<Rightarrow> error + ('a rcnn \<times> call list)" where
  "post_init init_conv_select_index hwi st =
     (case st of (model, calls) \<Rightarrow>
        if muxer_class (Conv_Body model) = BodyMuxer_ConcatenateConv then
          (case init_conv_select_index hwi (own (Conv_Body model)) of
             Inl e \<Rightarrow> Inl e
           | Inr own' \<Rightarrow>
               Inr (model\<lparr>Conv_Body := (Conv_Body model)\<lparr>own := own'\<rparr>\<rparr>,
                    calls @ [Init_Conv_Select hwi]))
        else Inr (model, calls))"

text \<open>Lines 60-84: the assembly loop followed by the post-assembly step.\<close>

definition compose ::
  "(int \<Rightarrow> 'a module \<Rightarrow> error + 'a module) \<Rightarrow> int \<Rightarrow> string list \<Rightarrow> 'a rcnn \<Rightarrow> 'a filesystem \<Rightarrow>
   error + ('a rcnn \<times> call list)" where
  "compose init_conv_select_index hwi paths model fs =
     (case assemble fs hwi 0 paths (model, []) of
        Inl e \<Rightarrow> Inl e
      | Inr st \<Rightarrow> post_init init_conv_select_index hwi st)"

text \<open>
  \<^verbatim>\<open>main()\<close> from line 55 on; \<open>model\<close> is what \<^verbatim>\<open>Generalized_RCNN()\<close> built from the
  configuration. The result is the exception that ended the run, if any, and the file
  system afterwards. The log file of \<^verbatim>\<open>setup_logging\<close> is left out.
\<close>

definition main ::
  "(int \<Rightarrow> 'a module \<Rightarrow> error + 'a module) \<Rightarrow> args \<Rightarrow> 'a rcnn \<Rightarrow> 'a filesystem \<Rightarrow>
   error option \<times> 'a filesystem" where
  "main init_conv_select_index args model fs =
     (case body_checkpoints args of
        None \<Rightarrow> (Some TypeError, fs)
      | Some paths \<Rightarrow>
          (case compose init_conv_select_index (head_weights_index args) paths model fs of
             Inl e \<Rightarrow> (Some e, fs)
           | Inr (model', calls) \<Rightarrow> (None, torch_save model' (output_model args) fs)))"

subsection \<open>Fresh models of one architecture\<close>

text \<open>
  \<^verbatim>\<open>Generalized_RCNN()\<close> draws the initial parameters; two runs build models with the same
  parameter names and shapes and, without a fixed seed, other values. The signature of a
  module is what \<^verbatim>\<open>load_state_dict\<close> looks at: names and shapes.
\<close>

definition signature :: "'a module \<Rightarrow> (string \<times> nat list) list" where
  "signature m = map (\<lambda>(k, t). (k, shape t)) m"

text \<open>
  Two lists of children with the same names and signatures that agree on every child whose
  name is outside \<open>C\<close>.
\<close>

definition children_agree ::
  "string set \<Rightarrow> (string \<times> 'a module) list \<Rightarrow> (string \<times> 'a module) list \<Rightarrow> bool" where
  "children_agree C cs1 cs2 \<longleftrightarrow>
     list_all2 (\<lambda>p1 p2. fst p1 = fst p2 \<and> signature (snd p1) = signature (snd p2) \<and>
                  (fst p1 \<notin> C \<longrightarrow> snd p1 = snd p2)) cs1 cs2"

text \<open>
  Two models of the same architecture that agree on the muxer's own parameters, on every
  backbone slot outside \<open>B\<close> and on every child whose name is outside \<open>C\<close>.
\<close>

definition agree_outside :: "nat set \<Rightarrow> string set \<Rightarrow> 'a rcnn \<Rightarrow> 'a rcnn \<Rightarrow> bool" where
  "agree_outside B C m1 m2 \<longleftrightarrow>
     muxer_class (Conv_Body m1) = muxer_class (Conv_Body m2) \<and>
     own (Conv_Body m1) = own (Conv_Body m2) \<and>
     length (bodies (Conv_Body m1)) = length (bodies (Conv_Body m2)) \<and>
     (\<forall>i < length (bodies (Conv_Body m1)).
        signature (bodies (Conv_Body m1) ! i) = signature (bodies (Conv_Body m2) ! i) \<and>
        (i \<notin> B \<longrightarrow> bodies (Conv_Body m1) ! i = bodies (Conv_Body m2) ! i)) \<and>
     children_agree C (children m1) (children m2)"

text \<open>
  The children that the loop from index \<open>i\<close> on will load: those of the head partition of
  the checkpoint at the head-weights index, when the loop reaches it.
\<close>

definition head_children :: "'a filesystem \<Rightarrow> int \<Rightarrow> nat \<Rightarrow> string list \<Rightarrow> string set" where
  "head_children fs hwi i paths =
     (if int i \<le> hwi \<and> hwi < int (i + length paths) then
        (case torch_load_model fs (paths ! (nat hwi - i)) of
           Inl e \<Rightarrow> {}
         | Inr checkpoint \<Rightarrow>
             (case children_state_dicts checkpoint [] of
                Inl e \<Rightarrow> {}
              | Inr csd \<Rightarrow> fst ` set csd))
      else {})"

subsection \<open>Example inputs\<close>

text \<open>
  Two checkpoints with a backbone and an \<^verbatim>\<open>RPN\<close> head, one with a backbone only, one
  with an extra \<^verbatim>\<open>Mask\<close> head, and
  a target model with two backbone slots and an \<^verbatim>\<open>RPN\<close> head.
\<close>

definition leaf :: "nat \<Rightarrow> nat tensor" where
  "leaf n = \<lparr>shape = [1], data = n\<rparr>"

definition checkpoint_a :: "nat state_dict" where
  "checkpoint_a = [(''Conv_Body.w'', leaf 10), (''RPN.w'', leaf 11)]"

definition checkpoint_b :: "nat state_dict" where
  "checkpoint_b = [(''Conv_Body.w'', leaf 20), (''RPN.w'', leaf 21)]"

definition checkpoint_c :: "nat state_dict" where
  "checkpoint_c = [(''Conv_Body.w'', leaf 30)]"

definition checkpoint_mask :: "nat state_dict" where
  "checkpoint_mask = [(''Conv_Body.w'', leaf 40), (''RPN.w'', leaf 41), (''Mask.w'', leaf 42)]"

definition example_fs :: "nat filesystem" where
  "example_fs =
     [''a.pth'' \<mapsto> [(''model'', checkpoint_a)],
      ''b.pth'' \<mapsto> [(''model'', checkpoint_b)],
      ''c.pth'' \<mapsto> [(''model'', checkpoint_c)],
      ''m.pth'' \<mapsto> [(''model'', checkpoint_mask)]]"

definition example_muxer :: "muxer_class \<Rightarrow> nat body_muxer" where
  "example_muxer cls =
     \<lparr>muxer_class = cls, bodies = [[(''w'', leaf 0)], [(''w'', leaf 1)]],
      own = (if cls = BodyMuxer_ConcatenateConv then [(''conv.weight'', leaf 2)] else [])\<rparr>"

definition example_model :: "muxer_class \<Rightarrow> nat rcnn" where
  "example_model cls = \<lparr>Conv_Body = example_muxer cls, children = [(''RPN'', [(''w'', leaf 3)])]\<rparr>"

text \<open>The same architecture with other initial values.\<close>

definition example_model_reseeded :: "muxer_class \<Rightarrow> nat rcnn" where
  "example_model_reseeded cls =
     \<lparr>Conv_Body = (example_muxer cls)\<lparr>bodies := [[(''w'', leaf 5)], [(''w'', leaf 6)]]\<rparr>,
      children = [(''RPN'', [(''w'', leaf 4)])]\<rparr>"

definition example_args :: "string list \<Rightarrow> int \<Rightarrow> args" where
  "example_args paths hwi =
     \<lparr>body_checkpoints = Some paths, config = ''config.yaml'', head_weights_index = hwi,
      output_model = ''out.pth'', num_classes = 2\<rparr>"

text \<open>A selection step that stores the index it is given in every weight of the muxer.\<close>

definition mark_selection :: "int \<Rightarrow> nat module \<Rightarrow> error + nat module" where
  "mark_selection k ws = Inr (map (\<lambda>(name, t). (name, t\<lparr>data := nat (abs k)\<rparr>)) ws)"

section \<open>Properties of the steps\<close>

subsection \<open>Loading a module\<close>


lemma load_state_dict_keys: "load_state_dict m sd = Inr m' \<Longrightarrow> map fst m' = map fst m"
  by (auto simp: load_state_dict_def split: if_splits)



lemma load_body_Inr:
  "load_body i sd (m, calls) = Inr (m', calls') \<Longrightarrow>
     i < length (bodies (Conv_Body m)) \<and>
     (\<exists>b. load_state_dict (bodies (Conv_Body m) ! i) sd = Inr b \<and>
          m' = m\<lparr>Conv_Body := (Conv_Body m)\<lparr>bodies := (bodies (Conv_Body m))[i := b]\<rparr>\<rparr>) \<and>
     calls' = calls @ [Load_Body i i]"
  by (auto simp: load_body_def split: if_splits sum.splits)

lemma install_children_Inr:
  "install_children i csd (m, calls) = Inr (m', calls') \<Longrightarrow>
     Conv_Body m' = Conv_Body m \<and> map fst (children m') = map fst (children m) \<and>
     calls' = calls @ map (\<lambda>(c, d). Load_Child c i) csd \<and>
     (\<forall>c. c \<notin> fst ` set csd \<longrightarrow> map_of (children m') c = map_of (children m) c)"
proof (induction csd arbitrary: m calls)
  case Nil
  then show ?case by simp
next
  case (Cons a csd)
  obtain c d where a: "a = (c, d)" by (cases a)
  from Cons.prems obtain mc mc' where
    mc: "map_of (children m) c = Some mc" and ld: "load_state_dict mc d = Inr mc'"
    and rest: "install_children i csd (m\<lparr>children := AList.update c mc' (children m)\<rparr>, calls @ [Load_Child c i]) = Inr (m', calls')"
    by (auto simp: a split: option.splits sum.splits)
  have "c \<in> set (map fst (children m))" using mc
    by (metis map_of_eq_None_iff option.distinct(1) set_map)
  then have keys: "map fst (AList.update c mc' (children m)) = map fst (children m)"
    by (simp add: AList.update_keys)
  from Cons.IH[OF rest] keys show ?case
    by (auto simp: a AList.update_conv')
qed

lemma install_children_loaded:
  "install_children i csd (m, calls) = Inr (m', calls') \<Longrightarrow> distinct (map fst csd) \<Longrightarrow>
     (c, d) \<in> set csd \<Longrightarrow>
     \<exists>mc mc'. map_of (children m) c = Some mc \<and> load_state_dict mc d = Inr mc' \<and>
        map_of (children m') c = Some mc'"
proof (induction csd arbitrary: m calls)
  case Nil
  then show ?case by simp
next
  case (Cons a csd)
  obtain c0 d0 where a: "a = (c0, d0)" by (cases a)
  from Cons.prems(1) obtain mc mc' where
    mc: "map_of (children m) c0 = Some mc" and ld: "load_state_dict mc d0 = Inr mc'"
    and rest: "install_children i csd (m\<lparr>children := AList.update c0 mc' (children m)\<rparr>, calls @ [Load_Child c0 i]) = Inr (m', calls')"
    by (auto simp: a split: option.splits sum.splits)
  from Cons.prems(2) have c0: "c0 \<notin> fst ` set csd" and dist: "distinct (map fst csd)"
    by (auto simp: a)
  show ?case
  proof (cases "(c, d) = (c0, d0)")
    case True
    from install_children_Inr[OF rest] c0
    have "map_of (children m') c0 = Some mc'" by (simp add: AList.update_conv')
    with True mc ld show ?thesis by auto
  next
    case False
    with Cons.prems(3) have in_rest: "(c, d) \<in> set csd" by (auto simp: a)
    then have "c \<noteq> c0" using c0 by force
    with Cons.IH[OF rest dist in_rest] show ?thesis
      by (simp add: AList.update_conv')
  qed
qed


subsection \<open>Splitting keys and the head partition\<close>

lemma split1_cases: "split1 key = [key] \<and> CHR ''.'' \<notin> set key \<or>
  (\<exists>child sub. split1 key = [child, sub] \<and> key = child @ ''.'' @ sub \<and> CHR ''.'' \<notin> set child)"
proof (cases "CHR ''.'' \<in> set key")
  case False
  then show ?thesis by (simp add: split1_def)
next
  case True
  let ?P = "\<lambda>c. c \<noteq> CHR ''.''"
  have "dropWhile ?P key \<noteq> []" using True by (simp add: dropWhile_eq_Nil_conv)
  moreover have "hd (dropWhile ?P key) = CHR ''.''"
    using hd_dropWhile[of ?P key] calculation by auto
  ultimately have "dropWhile ?P key = CHR ''.'' # tl (dropWhile ?P key)"
    by (metis list.collapse)
  then have "key = takeWhile ?P key @ ''.'' @ tl (dropWhile ?P key)"
    by (metis append_Cons append_Nil takeWhile_dropWhile_id)
  moreover have "CHR ''.'' \<notin> set (takeWhile ?P key)"
    by (auto dest: set_takeWhileD)
  ultimately show ?thesis using True by (auto simp: split1_def)
qed

lemma split1_pair:
  "split1 key = [child, sub] \<Longrightarrow> key = child @ ''.'' @ sub \<and> CHR ''.'' \<notin> set child"
  using split1_cases[of key] by auto

lemma split1_join: "CHR ''.'' \<notin> set child \<Longrightarrow> split1 (child @ ''.'' @ sub) = [child, sub]"
  by (simp add: split1_def takeWhile_append dropWhile_append takeWhile_eq_all_conv[THEN iffD2]
      dropWhile_eq_Nil_conv[THEN iffD2])

lemma children_state_dicts_Cons_Inr:
  assumes "children_state_dicts ((key, value) # rest) csd0 = Inr csd"
  shows "(startswith key ''Conv_Body'' \<and> children_state_dicts rest csd0 = Inr csd) \<or>
    (\<not> startswith key ''Conv_Body'' \<and>
      (\<exists>child sub d. split1 key = [child, sub] \<and>
         d = (case map_of csd0 child of None \<Rightarrow> [] | Some d \<Rightarrow> d) \<and> sub \<notin> fst ` set d \<and>
         children_state_dicts rest (AList.update child (AList.update sub value d) csd0) = Inr csd))"
  using assms split1_cases[of key]
  by (auto simp: Let_def split: if_splits)


lemma children_state_dicts_distinct:
  "children_state_dicts cp csd0 = Inr csd \<Longrightarrow> distinct (map fst csd0) \<Longrightarrow> distinct (map fst csd)"
proof (induction cp arbitrary: csd0)
  case Nil
  then show ?case by simp
next
  case (Cons a cp)
  obtain key "value" where a: "a = (key, value)" by (cases a)
  from children_state_dicts_Cons_Inr[OF Cons.prems(1)[unfolded a]] Cons.IH Cons.prems(2)
  show ?case by (auto simp: AList.distinct_update)
qed

lemma children_state_dicts_keeps:
  "children_state_dicts cp csd0 = Inr csd \<Longrightarrow> map_of csd0 c = Some d0 \<Longrightarrow> map_of d0 s = Some t \<Longrightarrow>
     \<exists>d. map_of csd c = Some d \<and> map_of d s = Some t"
proof (induction cp arbitrary: csd0 d0)
  case Nil
  then show ?case by simp
next
  case (Cons a cp)
  obtain key "value" where a: "a = (key, value)" by (cases a)
  from children_state_dicts_Cons_Inr[OF Cons.prems(1)[unfolded a]]
  show ?case
  proof (elim disjE conjE exE)
    assume "children_state_dicts cp csd0 = Inr csd"
    from Cons.IH[OF this Cons.prems(2,3)] show ?thesis .
  next
    fix child sub d
    assume d: "d = (case map_of csd0 child of None \<Rightarrow> [] | Some d \<Rightarrow> d)"
      and fresh: "sub \<notin> fst ` set d"
      and rest: "children_state_dicts cp (AList.update child (AList.update sub value d) csd0) = Inr csd"
    show ?thesis
    proof (cases "c = child")
      case True
      with Cons.prems(2) d have "d = d0" by simp
      with Cons.prems(3) fresh have "s \<noteq> sub"
        by (metis domI dom_map_of_conv_image_fst)
      then have "map_of (AList.update sub value d) s = Some t"
        using Cons.prems(3) \<open>d = d0\<close> by (simp add: AList.update_conv')
      moreover have "map_of (AList.update child (AList.update sub value d) csd0) c = Some (AList.update sub value d)"
        using True by (simp add: AList.update_conv')
      ultimately show ?thesis using Cons.IH[OF rest] by blast
    next
      case False
      then have "map_of (AList.update child (AList.update sub value d) csd0) c = Some d0"
        using Cons.prems(2) by (simp add: AList.update_conv')
      from Cons.IH[OF rest this Cons.prems(3)] show ?thesis .
    qed
  qed
qed

lemma children_state_dicts_complete:
  "children_state_dicts cp csd0 = Inr csd \<Longrightarrow> (key, value) \<in> set cp \<Longrightarrow>
     \<not> startswith key ''Conv_Body'' \<Longrightarrow>
     \<exists>child sub d. split1 key = [child, sub] \<and> map_of csd child = Some d \<and> map_of d sub = Some value"
proof (induction cp arbitrary: csd0)
  case Nil
  then show ?case by simp
next
  case (Cons a cp)
  obtain key0 value0 where a: "a = (key0, value0)" by (cases a)
  from children_state_dicts_Cons_Inr[OF Cons.prems(1)[unfolded a]]
  show ?case
  proof (elim disjE conjE exE)
    assume body: "startswith key0 ''Conv_Body''" and rest: "children_state_dicts cp csd0 = Inr csd"
    with Cons.prems(2,3) have "(key, value) \<in> set cp" by (auto simp: a)
    from Cons.IH[OF rest this Cons.prems(3)] show ?thesis .
  next
    fix child sub d
    assume sp: "split1 key0 = [child, sub]"
      and rest: "children_state_dicts cp (AList.update child (AList.update sub value0 d) csd0) = Inr csd"
    show ?thesis
    proof (cases "(key, value) = (key0, value0)")
      case True
      have "map_of (AList.update child (AList.update sub value0 d) csd0) child = Some (AList.update sub value0 d)"
        by (simp add: AList.update_conv')
      moreover have "map_of (AList.update sub value0 d) sub = Some value0"
        by (simp add: AList.update_conv')
      ultimately show ?thesis
        using children_state_dicts_keeps[OF rest] sp True by blast
    next
      case False
      with Cons.prems(2) have "(key, value) \<in> set cp" by (auto simp: a)
      from Cons.IH[OF rest this Cons.prems(3)] show ?thesis .
    qed
  qed
qed

lemma children_state_dicts_sound:
  "children_state_dicts cp csd0 = Inr csd \<Longrightarrow> map_of csd c = Some d \<Longrightarrow> map_of d s = Some t \<Longrightarrow>
     (\<exists>d0. map_of csd0 c = Some d0 \<and> map_of d0 s = Some t) \<or>
     ((c @ ''.'' @ s, t) \<in> set cp \<and> \<not> startswith (c @ ''.'' @ s) ''Conv_Body'')"
proof (induction cp arbitrary: csd0)
  case Nil
  then show ?case by simp
next
  case (Cons a cp)
  obtain key0 value0 where a: "a = (key0, value0)" by (cases a)
  from children_state_dicts_Cons_Inr[OF Cons.prems(1)[unfolded a]]
  show ?case
  proof (elim disjE conjE exE)
    assume rest: "children_state_dicts cp csd0 = Inr csd"
    from Cons.IH[OF rest Cons.prems(2,3)] show ?thesis by auto
  next
    fix child sub d0
    assume nb: "\<not> startswith key0 ''Conv_Body''" and sp: "split1 key0 = [child, sub]"
      and d0: "d0 = (case map_of csd0 child of None \<Rightarrow> [] | Some d \<Rightarrow> d)"
      and rest: "children_state_dicts cp (AList.update child (AList.update sub value0 d0) csd0) = Inr csd"
    from split1_pair[OF sp] have key0: "key0 = child @ ''.'' @ sub" by simp
    from Cons.IH[OF rest Cons.prems(2,3)]
    show ?thesis
    proof (elim disjE exE conjE)
      fix d1
      assume d1: "map_of (AList.update child (AList.update sub value0 d0) csd0) c = Some d1"
        and t: "map_of d1 s = Some t"
      show ?thesis
      proof (cases "c = child")
        case False
        with d1 t show ?thesis by (auto simp: AList.update_conv')
      next
        case True
        with d1 have d1': "d1 = AList.update sub value0 d0" by (simp add: AList.update_conv')
        show ?thesis
        proof (cases "s = sub")
          case True
          with t d1' have "t = value0" by (simp add: AList.update_conv')
          with True \<open>c = child\<close> key0 nb show ?thesis by (auto simp: a)
        next
          case False
          with t d1' have "map_of d0 s = Some t" by (simp add: AList.update_conv')
          with d0 \<open>c = child\<close> show ?thesis by (auto split: option.splits)
        qed
      qed
    next
      assume "(c @ ''.'' @ s, t) \<in> set cp" "\<not> startswith (c @ ''.'' @ s) ''Conv_Body''"
      then show ?thesis by simp
    qed
  qed
qed

lemma children_state_dicts_no_assert:
  "distinct (map fst cp) \<Longrightarrow>
   (\<forall>c d s. map_of csd0 c = Some d \<longrightarrow> s \<in> fst ` set d \<longrightarrow> c @ ''.'' @ s \<notin> fst ` set cp) \<Longrightarrow>
   children_state_dicts cp csd0 \<noteq> Inl AssertionError"
proof (induction cp arbitrary: csd0)
  case Nil
  then show ?case by simp
next
  case (Cons a cp)
  obtain key "value" where a: "a = (key, value)" by (cases a)
  from Cons.prems(1) have fresh: "key \<notin> fst ` set cp" and dist: "distinct (map fst cp)"
    by (auto simp: a)
  show ?case
  proof (cases "startswith key ''Conv_Body''")
    case True
    have "children_state_dicts cp csd0 \<noteq> Inl AssertionError"
      using Cons.prems(2) by (intro Cons.IH[OF dist]) auto
    with True show ?thesis by (simp add: a)
  next
    case False
    from split1_cases[of key] show ?thesis
    proof (elim disjE conjE exE)
      assume "split1 key = [key]"
      with False show ?thesis by (simp add: a)
    next
      fix child sub
      assume sp: "split1 key = [child, sub]" and key: "key = child @ ''.'' @ sub"
      define d where "d = (case map_of csd0 child of None \<Rightarrow> [] | Some d \<Rightarrow> d)"
      have nin: "sub \<notin> fst ` set d"
      proof (cases "map_of csd0 child")
        case None
        then show ?thesis by (simp add: d_def)
      next
        case (Some d')
        then have "d = d'" by (simp add: d_def)
        with Cons.prems(2) Some key show ?thesis by (auto simp: a)
      qed
      have "children_state_dicts cp (AList.update child (AList.update sub value d) csd0) \<noteq> Inl AssertionError"
      proof (intro Cons.IH[OF dist] allI impI)
        fix c d' s
        assume c: "map_of (AList.update child (AList.update sub value d) csd0) c = Some d'"
          and s: "s \<in> fst ` set d'"
        show "c @ ''.'' @ s \<notin> fst ` set cp"
        proof (cases "c = child")
          case False
          with c have "map_of csd0 c = Some d'" by (simp add: AList.update_conv')
          with Cons.prems(2) s show ?thesis by (auto simp: a)
        next
          case True
          with c have "d' = AList.update sub value d" by (simp add: AList.update_conv')
          with s have "s = sub \<or> s \<in> fst ` set d" by (auto simp: AList.dom_update)
          then show ?thesis
          proof
            assume "s = sub"
            with True key fresh show ?thesis by simp
          next
            assume sd: "s \<in> fst ` set d"
            then obtain d0 where "map_of csd0 child = Some d0" "d = d0"
              by (cases "map_of csd0 child") (auto simp: d_def)
            with Cons.prems(2) sd True show ?thesis by (auto simp: a)
          qed
        qed
      qed
      with False sp nin show ?thesis by (simp add: a d_def Let_def)
    qed
  qed
qed


subsection \<open>The assembly loop\<close>

lemma load_heads_Inr:
  "load_heads i cp (m, calls) = Inr (m', calls') \<Longrightarrow>
     \<exists>csd. children_state_dicts cp [] = Inr csd \<and> distinct (map fst csd) \<and>
       install_children i csd (m, calls) = Inr (m', calls')"
  by (auto simp: load_heads_def split: sum.splits dest: children_state_dicts_distinct)

lemma assemble_Cons_Inr:
  assumes "assemble fs hwi i (p # rest) (m, calls) = Inr st'"
  shows "\<exists>cp b m2 calls2. torch_load_model fs p = Inr cp \<and> i < length (bodies (Conv_Body m)) \<and>
     load_state_dict (bodies (Conv_Body m) ! i) (body_state_dict cp) = Inr b \<and>
     Conv_Body m2 = (Conv_Body m)\<lparr>bodies := (bodies (Conv_Body m))[i := b]\<rparr> \<and>
     (if int i = hwi
      then load_heads i cp (m\<lparr>Conv_Body := (Conv_Body m)\<lparr>bodies := (bodies (Conv_Body m))[i := b]\<rparr>\<rparr>,
                            calls @ [Load_Body i i]) = Inr (m2, calls2)
      else m2 = m\<lparr>Conv_Body := (Conv_Body m)\<lparr>bodies := (bodies (Conv_Body m))[i := b]\<rparr>\<rparr> \<and>
           calls2 = calls @ [Load_Body i i]) \<and>
     assemble fs hwi (Suc i) rest (m2, calls2) = Inr st'"
proof -
  from assms obtain cp st1 st2 where cp: "torch_load_model fs p = Inr cp"
    and lb: "load_body i (body_state_dict cp) (m, calls) = Inr st1"
    and lh: "(if int i = hwi then load_heads i cp st1 else Inr st1) = Inr st2"
    and rest: "assemble fs hwi (Suc i) rest st2 = Inr st'"
    by (auto split: sum.splits)
  obtain m1 calls1 where st1: "st1 = (m1, calls1)" by (cases st1)
  obtain m2 calls2 where st2: "st2 = (m2, calls2)" by (cases st2)
  from load_body_Inr[OF lb[unfolded st1]] obtain b where
    i: "i < length (bodies (Conv_Body m))"
    and b: "load_state_dict (bodies (Conv_Body m) ! i) (body_state_dict cp) = Inr b"
    and m1: "m1 = m\<lparr>Conv_Body := (Conv_Body m)\<lparr>bodies := (bodies (Conv_Body m))[i := b]\<rparr>\<rparr>"
    and calls1: "calls1 = calls @ [Load_Body i i]"
    by blast
  have cb: "Conv_Body m2 = (Conv_Body m)\<lparr>bodies := (bodies (Conv_Body m))[i := b]\<rparr>"
  proof (cases "int i = hwi")
    case True
    with lh have "load_heads i cp (m1, calls1) = Inr (m2, calls2)" by (simp add: st1 st2)
    from load_heads_Inr[OF this] install_children_Inr show ?thesis
      by (fastforce simp: m1)
  next
    case False
    with lh show ?thesis by (auto simp: st1 st2 m1)
  qed
  from lh have "if int i = hwi
      then load_heads i cp (m\<lparr>Conv_Body := (Conv_Body m)\<lparr>bodies := (bodies (Conv_Body m))[i := b]\<rparr>\<rparr>,
                            calls @ [Load_Body i i]) = Inr (m2, calls2)
      else m2 = m\<lparr>Conv_Body := (Conv_Body m)\<lparr>bodies := (bodies (Conv_Body m))[i := b]\<rparr>\<rparr> \<and>
           calls2 = calls @ [Load_Body i i]"
    by (auto simp: st1 st2 m1 calls1 split: if_splits)
  with cp i b cb rest show ?thesis unfolding st2 by blast
qed

lemma step_children_names:
  assumes "if int i = hwi then load_heads i cp (m1, calls1) = Inr (m2, calls2)
           else m2 = m1 \<and> calls2 = calls1"
  shows "map fst (children m2) = map fst (children m1)"
  using assms load_heads_Inr install_children_Inr
  by (cases "int i = hwi") fastforce+

lemma assemble_frame:
  "assemble fs hwi i paths (m, calls) = Inr (m', calls') \<Longrightarrow>
     muxer_class (Conv_Body m') = muxer_class (Conv_Body m) \<and>
     own (Conv_Body m') = own (Conv_Body m) \<and>
     length (bodies (Conv_Body m')) = length (bodies (Conv_Body m)) \<and>
     map fst (children m') = map fst (children m) \<and>
     (\<forall>k. k < i \<or> i + length paths \<le> k \<longrightarrow> bodies (Conv_Body m') ! k = bodies (Conv_Body m) ! k)"
proof (induction paths arbitrary: i m calls)
  case Nil
  then show ?case by simp
next
  case (Cons p rest)
  from assemble_Cons_Inr[OF Cons.prems] obtain cp b m2 calls2 where
    cb: "Conv_Body m2 = (Conv_Body m)\<lparr>bodies := (bodies (Conv_Body m))[i := b]\<rparr>"
    and step: "if int i = hwi
      then load_heads i cp (m\<lparr>Conv_Body := (Conv_Body m)\<lparr>bodies := (bodies (Conv_Body m))[i := b]\<rparr>\<rparr>,
                            calls @ [Load_Body i i]) = Inr (m2, calls2)
      else m2 = m\<lparr>Conv_Body := (Conv_Body m)\<lparr>bodies := (bodies (Conv_Body m))[i := b]\<rparr>\<rparr> \<and>
           calls2 = calls @ [Load_Body i i]"
    and rest: "assemble fs hwi (Suc i) rest (m2, calls2) = Inr (m', calls')"
    by blast
  have names: "map fst (children m2) = map fst (children m)"
    using step_children_names[OF step] by simp
  from Cons.IH[OF rest] cb names show ?case by auto
qed

lemma assemble_bodies:
  "assemble fs hwi i paths (m, calls) = Inr (m', calls') \<Longrightarrow> j < length paths \<Longrightarrow>
     i + j < length (bodies (Conv_Body m)) \<and>
     (\<exists>cp. torch_load_model fs (paths ! j) = Inr cp \<and>
        load_state_dict (bodies (Conv_Body m) ! (i + j)) (body_state_dict cp) =
          Inr (bodies (Conv_Body m') ! (i + j)))"
proof (induction paths arbitrary: i m calls j)
  case Nil
  then show ?case by simp
next
  case (Cons p rest)
  from assemble_Cons_Inr[OF Cons.prems(1)] obtain cp b m2 calls2 where
    cp: "torch_load_model fs p = Inr cp" and i: "i < length (bodies (Conv_Body m))"
    and b: "load_state_dict (bodies (Conv_Body m) ! i) (body_state_dict cp) = Inr b"
    and cb: "Conv_Body m2 = (Conv_Body m)\<lparr>bodies := (bodies (Conv_Body m))[i := b]\<rparr>"
    and rest: "assemble fs hwi (Suc i) rest (m2, calls2) = Inr (m', calls')"
    by blast
  show ?case
  proof (cases j)
    case 0
    from assemble_frame[OF rest] have "bodies (Conv_Body m') ! i = bodies (Conv_Body m2) ! i"
      by simp
    with cb i have "bodies (Conv_Body m') ! i = b" by simp
    with 0 cp i b show ?thesis by simp
  next
    case (Suc j')
    with Cons.prems(2) have "j' < length rest" by simp
    from Cons.IH[OF rest this] cb Suc show ?thesis by simp
  qed
qed

lemma assemble_children_out:
  "assemble fs hwi i paths (m, calls) = Inr (m', calls') \<Longrightarrow>
     hwi < int i \<or> int (i + length paths) \<le> hwi \<Longrightarrow>
     children m' = children m \<and> (\<forall>c k. Load_Child c k \<in> set calls' \<longrightarrow> Load_Child c k \<in> set calls)"
proof (induction paths arbitrary: i m calls)
  case Nil
  then show ?case by simp
next
  case (Cons p rest)
  from Cons.prems(2) have ne: "int i \<noteq> hwi" by auto
  from assemble_Cons_Inr[OF Cons.prems(1)] ne obtain b m2 calls2 where
    m2: "m2 = m\<lparr>Conv_Body := (Conv_Body m)\<lparr>bodies := (bodies (Conv_Body m))[i := b]\<rparr>\<rparr>"
    and calls2: "calls2 = calls @ [Load_Body i i]"
    and rest: "assemble fs hwi (Suc i) rest (m2, calls2) = Inr (m', calls')"
    by auto
  from Cons.prems(2) have "hwi < int (Suc i) \<or> int (Suc i + length rest) \<le> hwi" by auto
  from Cons.IH[OF rest this] m2 calls2 show ?case by auto
qed

lemma assemble_children_in:
  "assemble fs hwi i paths (m, calls) = Inr (m', calls') \<Longrightarrow>
     int i \<le> hwi \<Longrightarrow> hwi < int (i + length paths) \<Longrightarrow>
     \<exists>cp csd. torch_load_model fs (paths ! (nat hwi - i)) = Inr cp \<and>
       children_state_dicts cp [] = Inr csd \<and> distinct (map fst csd) \<and>
       (\<forall>c. c \<notin> fst ` set csd \<longrightarrow> map_of (children m') c = map_of (children m) c) \<and>
       (\<forall>(c, d) \<in> set csd. \<exists>mc mc'. map_of (children m) c = Some mc \<and>
           load_state_dict mc d = Inr mc' \<and> map_of (children m') c = Some mc') \<and>
       (\<forall>c k. Load_Child c k \<in> set calls' \<longrightarrow>
           Load_Child c k \<in> set calls \<or> int k = hwi \<and> c \<in> fst ` set csd)"
proof (induction paths arbitrary: i m calls)
  case Nil
  then show ?case by simp
next
  case (Cons p rest)
  from assemble_Cons_Inr[OF Cons.prems(1)] obtain cp b m2 calls2 where
    cp: "torch_load_model fs p = Inr cp"
    and step: "if int i = hwi
      then load_heads i cp (m\<lparr>Conv_Body := (Conv_Body m)\<lparr>bodies := (bodies (Conv_Body m))[i := b]\<rparr>\<rparr>,
                            calls @ [Load_Body i i]) = Inr (m2, calls2)
      else m2 = m\<lparr>Conv_Body := (Conv_Body m)\<lparr>bodies := (bodies (Conv_Body m))[i := b]\<rparr>\<rparr> \<and>
           calls2 = calls @ [Load_Body i i]"
    and rest: "assemble fs hwi (Suc i) rest (m2, calls2) = Inr (m', calls')"
    by blast
  show ?case
  proof (cases "int i = hwi")
    case True
    let ?m1 = "m\<lparr>Conv_Body := (Conv_Body m)\<lparr>bodies := (bodies (Conv_Body m))[i := b]\<rparr>\<rparr>"
    from step True have "load_heads i cp (?m1, calls @ [Load_Body i i]) = Inr (m2, calls2)" by simp
    from load_heads_Inr[OF this] obtain csd where
      csd: "children_state_dicts cp [] = Inr csd" and dist: "distinct (map fst csd)"
      and inst: "install_children i csd (?m1, calls @ [Load_Body i i]) = Inr (m2, calls2)"
      by blast
    from True have out: "hwi < int (Suc i) \<or> int (Suc i + length rest) \<le> hwi" by simp
    from assemble_children_out[OF rest out] have same: "children m' = children m2"
      and calls': "\<forall>c k. Load_Child c k \<in> set calls' \<longrightarrow> Load_Child c k \<in> set calls2"
      by blast+
    have idx: "nat hwi - i = 0" using True by auto
    have a: "\<forall>c. c \<notin> fst ` set csd \<longrightarrow> map_of (children m') c = map_of (children m) c"
      using install_children_Inr[OF inst] same by simp
    have b: "\<forall>(c, d) \<in> set csd. \<exists>mc mc'. map_of (children m) c = Some mc \<and>
           load_state_dict mc d = Inr mc' \<and> map_of (children m') c = Some mc'"
      using install_children_loaded[OF inst dist] same by fastforce
    have c: "\<forall>c k. Load_Child c k \<in> set calls' \<longrightarrow>
           Load_Child c k \<in> set calls \<or> int k = hwi \<and> c \<in> fst ` set csd"
      using install_children_Inr[OF inst] calls' True by force
    from cp csd dist a b c idx show ?thesis by auto
  next
    case False
    with step have m2: "children m2 = children m" and calls2: "calls2 = calls @ [Load_Body i i]"
      by auto
    from False Cons.prems(2,3) have lo: "int (Suc i) \<le> hwi" and hi: "hwi < int (Suc i + length rest)"
      by auto
    from lo have "nat hwi - i = Suc (nat hwi - Suc i)" by linarith
    then have idx: "(p # rest) ! (nat hwi - i) = rest ! (nat hwi - Suc i)"
      by simp
    from Cons.IH[OF rest lo hi] show ?thesis
      unfolding idx m2 calls2 by auto
  qed
qed


lemma child_calls_distinct:
  "distinct (map fst csd) \<Longrightarrow> distinct (map (\<lambda>(c, d). Load_Child c i) csd)"
  by (induction csd) (auto simp: image_iff)

lemma assemble_calls:
  "assemble fs hwi i paths (m, calls) = Inr (m', calls') \<Longrightarrow>
     \<exists>new. calls' = calls @ new \<and> distinct new \<and>
       (\<forall>s j. Load_Body s j \<in> set new \<longleftrightarrow> s = j \<and> i \<le> j \<and> j < i + length paths) \<and>
       (\<forall>c j. Load_Child c j \<in> set new \<longrightarrow> int j = hwi \<and> i \<le> j \<and> j < i + length paths) \<and>
       (\<forall>k. Init_Conv_Select k \<notin> set new)"
proof (induction paths arbitrary: i m calls)
  case Nil
  then show ?case by simp
next
  case (Cons p rest)
  from assemble_Cons_Inr[OF Cons.prems(1)] obtain cp b m2 calls2 where
    step: "if int i = hwi
      then load_heads i cp (m\<lparr>Conv_Body := (Conv_Body m)\<lparr>bodies := (bodies (Conv_Body m))[i := b]\<rparr>\<rparr>,
                            calls @ [Load_Body i i]) = Inr (m2, calls2)
      else m2 = m\<lparr>Conv_Body := (Conv_Body m)\<lparr>bodies := (bodies (Conv_Body m))[i := b]\<rparr>\<rparr> \<and>
           calls2 = calls @ [Load_Body i i]"
    and rest: "assemble fs hwi (Suc i) rest (m2, calls2) = Inr (m', calls')"
    by blast
  have "\<exists>ch. calls2 = calls @ [Load_Body i i] @ ch \<and> distinct ch \<and>
     (\<forall>x \<in> set ch. \<exists>c. x = Load_Child c i \<and> int i = hwi)"
  proof (cases "int i = hwi")
    case True
    with step load_heads_Inr obtain csd where dist: "distinct (map fst csd)"
      and inst: "install_children i csd (m\<lparr>Conv_Body := (Conv_Body m)\<lparr>bodies := (bodies (Conv_Body m))[i := b]\<rparr>\<rparr>,
                            calls @ [Load_Body i i]) = Inr (m2, calls2)"
      by fastforce
    from install_children_Inr[OF inst]
    have "calls2 = calls @ [Load_Body i i] @ map (\<lambda>(c, d). Load_Child c i) csd" by simp
    with child_calls_distinct[OF dist] True show ?thesis by auto
  next
    case False
    with step show ?thesis by auto
  qed
  then obtain ch where calls2: "calls2 = calls @ [Load_Body i i] @ ch" and dch: "distinct ch"
    and ch: "\<forall>x \<in> set ch. \<exists>c. x = Load_Child c i \<and> int i = hwi"
    by blast
  from Cons.IH[OF rest] obtain new where new: "calls' = calls2 @ new" and dnew: "distinct new"
    and nb: "\<forall>s j. Load_Body s j \<in> set new \<longleftrightarrow> s = j \<and> Suc i \<le> j \<and> j < Suc i + length rest"
    and nc: "\<forall>c j. Load_Child c j \<in> set new \<longrightarrow> int j = hwi \<and> Suc i \<le> j \<and> j < Suc i + length rest"
    and ni: "\<forall>k. Init_Conv_Select k \<notin> set new"
    by blast
  let ?new = "[Load_Body i i] @ ch @ new"
  have 1: "calls' = calls @ ?new" using new calls2 by simp
  have disj: "set ch \<inter> set new = {}"
  proof (rule ccontr)
    assume "set ch \<inter> set new \<noteq> {}"
    then obtain x where x: "x \<in> set ch" "x \<in> set new" by auto
    with ch obtain c where "x = Load_Child c i" by blast
    with x(2) nc have "Suc i \<le> i" by blast
    then show False by simp
  qed
  have "Load_Body i i \<notin> set ch" using ch by auto
  moreover have "Load_Body i i \<notin> set new" using nb by auto
  ultimately have 2: "distinct ?new" using dch dnew disj by simp
  have 3: "\<forall>s j. Load_Body s j \<in> set ?new \<longleftrightarrow> s = j \<and> i \<le> j \<and> j < i + length (p # rest)"
    using nb ch by auto
  have 4: "\<forall>c j. Load_Child c j \<in> set ?new \<longrightarrow> int j = hwi \<and> i \<le> j \<and> j < i + length (p # rest)"
  proof (intro allI impI)
    fix c j
    assume "Load_Child c j \<in> set ?new"
    then consider "Load_Child c j \<in> set ch" | "Load_Child c j \<in> set new" by auto
    then show "int j = hwi \<and> i \<le> j \<and> j < i + length (p # rest)"
    proof cases
      case 1
      with ch show ?thesis by auto
    next
      case 2
      with nc have "int j = hwi \<and> Suc i \<le> j \<and> j < Suc i + length rest" by blast
      then show ?thesis by simp
    qed
  qed
  have 5: "\<forall>k. Init_Conv_Select k \<notin> set ?new" using ni ch by auto
  from 1 2 3 4 5 show ?case by blast
qed

subsection \<open>The whole run\<close>

lemma post_init_Inr:
  "post_init init hwi (m, calls) = Inr (m', calls') \<Longrightarrow>
     (muxer_class (Conv_Body m) = BodyMuxer_ConcatenateConv \<and>
        (\<exists>ws. init hwi (own (Conv_Body m)) = Inr ws \<and>
           m' = m\<lparr>Conv_Body := (Conv_Body m)\<lparr>own := ws\<rparr>\<rparr>) \<and>
        calls' = calls @ [Init_Conv_Select hwi]) \<or>
     (muxer_class (Conv_Body m) \<noteq> BodyMuxer_ConcatenateConv \<and> m' = m \<and> calls' = calls)"
  by (auto simp: post_init_def split: if_splits sum.splits)

lemma compose_Inr:
  "compose init hwi paths model fs = Inr (m', calls) \<Longrightarrow>
     \<exists>ma callsa. assemble fs hwi 0 paths (model, []) = Inr (ma, callsa) \<and>
        post_init init hwi (ma, callsa) = Inr (m', calls)"
  by (auto simp: compose_def split: sum.splits)

lemma main_cases:
  "(\<exists>e. main init args model fs = (Some e, fs)) \<or>
   (\<exists>paths m' calls. body_checkpoints args = Some paths \<and>
      compose init (head_weights_index args) paths model fs = Inr (m', calls) \<and>
      main init args model fs = (None, torch_save m' (output_model args) fs))"
  by (auto simp: main_def split: option.splits sum.splits)

lemma assemble_steps_ok:
  assumes run: "assemble fs hwi 0 paths (model, []) = Inr (m', calls)" and i: "i < length paths"
  shows "\<exists>cp b. torch_load_model fs (paths ! i) = Inr cp \<and>
           i < length (bodies (Conv_Body model)) \<and>
           load_state_dict (bodies (Conv_Body model) ! i) (body_state_dict cp) = Inr b \<and>
           (int i = hwi \<longrightarrow>
              (\<exists>csd. children_state_dicts cp [] = Inr csd \<and>
                 (\<forall>(c, d) \<in> set csd. \<exists>mc mc'. map_of (children model) c = Some mc \<and>
                     load_state_dict mc d = Inr mc')))"
proof -
  from assemble_bodies[OF run i] obtain cp where
    cp: "torch_load_model fs (paths ! i) = Inr cp" and lt: "i < length (bodies (Conv_Body model))"
    and b: "load_state_dict (bodies (Conv_Body model) ! i) (body_state_dict cp) =
              Inr (bodies (Conv_Body m') ! i)"
    by auto
  have "\<exists>csd. children_state_dicts cp [] = Inr csd \<and>
                 (\<forall>(c, d) \<in> set csd. \<exists>mc mc'. map_of (children model) c = Some mc \<and>
                     load_state_dict mc d = Inr mc')" if h: "int i = hwi"
  proof -
    from h i have "int 0 \<le> hwi" "hwi < int (0 + length paths)" by auto
    from assemble_children_in[OF run this] h cp show ?thesis by fastforce
  qed
  with cp lt b show ?thesis by blast
qed


lemma assemble_append:
  "assemble fs hwi i (xs @ ys) st =
     (case assemble fs hwi i xs st of
        Inl e \<Rightarrow> Inl e
      | Inr st' \<Rightarrow> assemble fs hwi (i + length xs) ys st')"
  by (induction xs arbitrary: i st) (auto split: sum.splits)

lemma assemble_too_many:
  assumes "length (bodies (Conv_Body model)) < length paths"
  shows "\<exists>e. assemble fs hwi 0 paths (model, calls) = Inl e"
proof (cases "assemble fs hwi 0 paths (model, calls)")
  case (Inl e)
  then show ?thesis by blast
next
  case (Inr st)
  obtain m' calls' where "st = (m', calls')" by (cases st)
  with Inr assemble_bodies[of fs hwi 0 paths model calls m' calls' "length (bodies (Conv_Body model))"] assms
  show ?thesis by simp
qed



subsection \<open>The two partitions\<close>

lemma split1_inj:
  "split1 k1 = [child, sub] \<Longrightarrow> split1 k2 = [child, sub] \<Longrightarrow> k1 = k2"
  using split1_pair by blast

lemma children_state_dicts_repeated_entry:
  "children_state_dicts [(''RPN.w'', t), (''RPN.w'', t')] [] = Inl AssertionError"
  by (simp add: startswith_def split1_def)

lemma body_fold_keys:
  "fst ` set (fold (\<lambda>(key, value) d.
             if startswith key ''Conv_Body'' then AList.update (last (split1 key)) value d else d) cp d0) =
   fst ` set d0 \<union> (\<lambda>key. last (split1 key)) ` {key \<in> fst ` set cp. startswith key ''Conv_Body''}"
proof (induction cp arbitrary: d0)
  case Nil
  then show ?case by simp
next
  case (Cons a cp)
  obtain key "value" where a: "a = (key, value)" by (cases a)
  show ?case
    by (cases "startswith key ''Conv_Body''") (auto simp: a Cons.IH AList.dom_update)
qed

lemma body_fold_values:
  "map_of (fold (\<lambda>(key, value) d.
             if startswith key ''Conv_Body'' then AList.update (last (split1 key)) value d else d) cp d0) s = Some t \<Longrightarrow>
   map_of d0 s = Some t \<or>
   (\<exists>key. (key, t) \<in> set cp \<and> startswith key ''Conv_Body'' \<and> last (split1 key) = s)"
proof (induction cp arbitrary: d0)
  case Nil
  then show ?case by simp
next
  case (Cons a cp)
  obtain key "value" where a: "a = (key, value)" by (cases a)
  show ?case
  proof (cases "startswith key ''Conv_Body''")
    case False
    with Cons.prems have "map_of (fold (\<lambda>(key, value) d.
             if startswith key ''Conv_Body'' then AList.update (last (split1 key)) value d else d) cp d0) s = Some t"
      by (simp add: a)
    from Cons.IH[OF this] show ?thesis by auto
  next
    case True
    with Cons.prems have "map_of (fold (\<lambda>(key, value) d.
             if startswith key ''Conv_Body'' then AList.update (last (split1 key)) value d else d) cp
             (AList.update (last (split1 key)) value d0)) s = Some t"
      by (simp add: a)
    from Cons.IH[OF this] True show ?thesis
      by (auto simp: a AList.update_conv' split: if_splits)
  qed
qed

lemma split1_last_prefix: "last (split1 (''Conv_Body.'' @ rest)) = rest"
  by (simp add: split1_def)

subsection \<open>The saved state\<close>














subsection \<open>Runs from two fresh models\<close>

lemma signature_keys: "map fst (signature m) = map fst m"
  by (simp add: signature_def case_prod_beta)

lemma load_state_dict_signature:
  assumes "signature m1 = signature m2"
  shows "load_state_dict m1 sd = load_state_dict m2 sd"
proof -
  from assms have keys: "map fst m1 = map fst m2"
    by (metis signature_keys)
  have third: "list_all (\<lambda>(k, t). map_option shape (map_of sd k) = Some (shape t)) m =
      list_all (\<lambda>(k, sh). map_option shape (map_of sd k) = Some sh) (signature m)" for m :: "'a module"
    by (simp add: signature_def list_all_iff case_prod_beta)
  have res: "map (\<lambda>(k, t). (k, the (map_of sd k))) m = map (\<lambda>k. (k, the (map_of sd k))) (map fst m)"
    for m :: "'a module"
    by (simp add: case_prod_beta)
  show ?thesis
    unfolding load_state_dict_def third res using assms keys by simp
qed

lemma children_agree_names: "children_agree C cs1 cs2 \<Longrightarrow> map fst cs1 = map fst cs2"
  unfolding children_agree_def by (induction rule: list_all2_induct) auto

lemma children_agree_lookup:
  "children_agree C cs1 cs2 \<Longrightarrow>
     (map_of cs1 c = None \<longrightarrow> map_of cs2 c = None) \<and>
     (\<forall>x1. map_of cs1 c = Some x1 \<longrightarrow>
        (\<exists>x2. map_of cs2 c = Some x2 \<and> signature x1 = signature x2))"
  unfolding children_agree_def
proof (induction rule: list_all2_induct)
  case Nil
  then show ?case by simp
next
  case (Cons p1 ps1 p2 ps2)
  then show ?case by (cases p1; cases p2) auto
qed

lemma children_agree_shrink:
  "children_agree C cs1 cs2 \<Longrightarrow> c \<notin> fst ` set cs1 \<Longrightarrow> children_agree (C - {c}) cs1 cs2"
  unfolding children_agree_def by (induction rule: list_all2_induct) auto

lemma children_agree_update:
  "children_agree C cs1 cs2 \<Longrightarrow> distinct (map fst cs1) \<Longrightarrow>
     children_agree (C - {c}) (AList.update c v cs1) (AList.update c v cs2)"
proof (induction cs1 arbitrary: cs2)
  case Nil
  then show ?case by (simp add: children_agree_def)
next
  case (Cons p1 ps1)
  from Cons.prems(1) obtain p2 ps2 where cs2: "cs2 = p2 # ps2"
    and head: "fst p1 = fst p2" "signature (snd p1) = signature (snd p2)" "fst p1 \<notin> C \<longrightarrow> snd p1 = snd p2"
    and tail: "children_agree C ps1 ps2"
    by (auto simp: children_agree_def list_all2_Cons1)
  from Cons.prems(2) have fresh: "fst p1 \<notin> fst ` set ps1" and dist: "distinct (map fst ps1)" by auto
  show ?case
  proof (cases "fst p1 = c")
    case True
    with fresh tail have "children_agree (C - {c}) ps1 ps2" by (intro children_agree_shrink) auto
    with True head show ?thesis by (simp add: cs2 children_agree_def)
  next
    case False
    from Cons.IH[OF tail dist] have "children_agree (C - {c}) (AList.update c v ps1) (AList.update c v ps2)" .
    moreover have "fst p1 \<notin> C - {c} \<longrightarrow> snd p1 = snd p2" using head(3) False by auto
    ultimately show ?thesis using False head by (simp add: cs2 children_agree_def)
  qed
qed

lemma children_agree_empty: "children_agree {} cs1 cs2 \<Longrightarrow> cs1 = cs2"
  unfolding children_agree_def by (induction rule: list_all2_induct) (auto simp: prod_eq_iff)

lemma agree_outside_empty:
  assumes "agree_outside {} {} m1 m2"
  shows "m1 = m2"
proof -
  from assms have "bodies (Conv_Body m1) = bodies (Conv_Body m2)"
    by (intro nth_equalityI) (auto simp: agree_outside_def)
  with assms have "Conv_Body m1 = Conv_Body m2"
    by (intro body_muxer.equality) (auto simp: agree_outside_def)
  moreover from assms have "children m1 = children m2"
    by (auto simp: agree_outside_def dest: children_agree_empty)
  ultimately show ?thesis by (intro rcnn.equality) auto
qed

lemma load_body_agree:
  assumes agree: "agree_outside B C m1 m2"
  shows "(\<exists>e. load_body i sd (m1, calls) = Inl e \<and> load_body i sd (m2, calls) = Inl e) \<or>
         (\<exists>m1' m2' calls'. load_body i sd (m1, calls) = Inr (m1', calls') \<and>
            load_body i sd (m2, calls) = Inr (m2', calls') \<and>
            agree_outside (B - {i}) C m1' m2' \<and> children m1' = children m1)"
proof (cases "i < length (bodies (Conv_Body m1))")
  case False
  with agree show ?thesis by (auto simp: load_body_def agree_outside_def)
next
  case True
  with agree have i2: "i < length (bodies (Conv_Body m2))"
    and sg: "signature (bodies (Conv_Body m1) ! i) = signature (bodies (Conv_Body m2) ! i)"
    by (auto simp: agree_outside_def)
  from load_state_dict_signature[OF sg]
  have same: "load_state_dict (bodies (Conv_Body m1) ! i) sd = load_state_dict (bodies (Conv_Body m2) ! i) sd" .
  show ?thesis
  proof (cases "load_state_dict (bodies (Conv_Body m1) ! i) sd")
    case (Inl e)
    then have "load_body i sd (m1, calls) = Inl e" using True by (simp add: load_body_def)
    moreover from Inl same have "load_state_dict (bodies (Conv_Body m2) ! i) sd = Inl e" by simp
    then have "load_body i sd (m2, calls) = Inl e"
      using i2 by (simp add: load_body_def)
    ultimately show ?thesis by blast
  next
    case (Inr b)
    let ?m1 = "m1\<lparr>Conv_Body := (Conv_Body m1)\<lparr>bodies := (bodies (Conv_Body m1))[i := b]\<rparr>\<rparr>"
    let ?m2 = "m2\<lparr>Conv_Body := (Conv_Body m2)\<lparr>bodies := (bodies (Conv_Body m2))[i := b]\<rparr>\<rparr>"
    have 1: "load_body i sd (m1, calls) = Inr (?m1, calls @ [Load_Body i i])"
      using Inr True by (simp add: load_body_def)
    from Inr same have r2: "load_state_dict (bodies (Conv_Body m2) ! i) sd = Inr b" by simp
    have 2: "load_body i sd (m2, calls) = Inr (?m2, calls @ [Load_Body i i])"
      using r2 i2 by (simp add: load_body_def)
    have 3: "agree_outside (B - {i}) C ?m1 ?m2"
      using agree True i2 by (auto simp: agree_outside_def nth_list_update)
    from 1 2 3 show ?thesis by auto
  qed
qed

lemma install_children_agree:
  "agree_outside B C m1 m2 \<Longrightarrow> distinct (map fst (children m1)) \<Longrightarrow>
     (\<exists>e. install_children i csd (m1, calls) = Inl e \<and> install_children i csd (m2, calls) = Inl e) \<or>
     (\<exists>m1' m2' calls'. install_children i csd (m1, calls) = Inr (m1', calls') \<and>
        install_children i csd (m2, calls) = Inr (m2', calls') \<and>
        agree_outside B (C - fst ` set csd) m1' m2' \<and>
        map fst (children m1') = map fst (children m1))"
proof (induction csd arbitrary: m1 m2 calls C)
  case Nil
  then show ?case by simp
next
  case (Cons a csd)
  obtain c d where a: "a = (c, d)" by (cases a)
  from Cons.prems(1) have ca: "children_agree C (children m1) (children m2)"
    by (simp add: agree_outside_def)
  show ?case
  proof (cases "map_of (children m1) c")
    case None
    with children_agree_lookup[OF ca, of c] have "map_of (children m2) c = None" by simp
    with None show ?thesis by (simp add: a)
  next
    case (Some x1)
    with children_agree_lookup[OF ca, of c] obtain x2 where
      x2: "map_of (children m2) c = Some x2" and sg: "signature x1 = signature x2" by auto
    from load_state_dict_signature[OF sg] have same: "load_state_dict x1 d = load_state_dict x2 d" .
    show ?thesis
    proof (cases "load_state_dict x1 d")
      case (Inl e)
      with same have l2: "load_state_dict x2 d = Inl e" by simp
      have "install_children i (a # csd) (m1, calls) = Inl e" using Some Inl by (simp add: a)
      moreover have "install_children i (a # csd) (m2, calls) = Inl e" using x2 l2 by (simp add: a)
      ultimately show ?thesis by blast
    next
      case (Inr x')
      let ?m1 = "m1\<lparr>children := AList.update c x' (children m1)\<rparr>"
      let ?m2 = "m2\<lparr>children := AList.update c x' (children m2)\<rparr>"
      have s1: "install_children i (a # csd) (m1, calls) = install_children i csd (?m1, calls @ [Load_Child c i])"
        using Some Inr by (simp add: a)
      from Inr same have r2: "load_state_dict x2 d = Inr x'" by simp
      have s2: "install_children i (a # csd) (m2, calls) = install_children i csd (?m2, calls @ [Load_Child c i])"
        using x2 r2 by (simp add: a)
      have "c \<in> set (map fst (children m1))" using Some
        by (metis map_of_eq_None_iff option.distinct(1) set_map)
      then have names: "map fst (children ?m1) = map fst (children m1)"
        by (simp add: AList.update_keys)
      have agree': "agree_outside B (C - {c}) ?m1 ?m2"
        using Cons.prems children_agree_update[OF ca Cons.prems(2), of c x']
        by (simp add: agree_outside_def)
      have dist': "distinct (map fst (children ?m1))" using names Cons.prems(2) by simp
      have eq: "C - {c} - fst ` set csd = C - fst ` set (a # csd)" by (auto simp: a)
      from Cons.IH[OF agree' dist', of "calls @ [Load_Child c i]"] show ?thesis
        unfolding s1 s2 eq names by simp
    qed
  qed
qed

lemma head_children_Nil: "head_children fs hwi i [] = {}"
  by (auto simp: head_children_def)

lemma head_children_Cons:
  assumes "int i \<noteq> hwi"
  shows "head_children fs hwi i (p # rest) = head_children fs hwi (Suc i) rest"
proof (cases "int (Suc i) \<le> hwi \<and> hwi < int (Suc i + length rest)")
  case True
  then have c1: "int i \<le> hwi \<and> hwi < int (i + length (p # rest))" by auto
  from True have "nat hwi - i = Suc (nat hwi - Suc i)" by linarith
  then have idx: "(p # rest) ! (nat hwi - i) = rest ! (nat hwi - Suc i)" by simp
  show ?thesis unfolding head_children_def if_P[OF c1] if_P[OF True] idx by (rule refl)
next
  case False
  with assms have c1: "\<not> (int i \<le> hwi \<and> hwi < int (i + length (p # rest)))" by auto
  show ?thesis unfolding head_children_def if_not_P[OF c1] if_not_P[OF False] by (rule refl)
qed

lemma head_children_here:
  "torch_load_model fs p = Inr cp \<Longrightarrow> children_state_dicts cp [] = Inr csd \<Longrightarrow>
     head_children fs (int i) i (p # rest) = fst ` set csd"
  by (simp add: head_children_def)

lemma assemble_agree:
  "agree_outside B C m1 m2 \<Longrightarrow> B \<subseteq> {i..<i + length paths} \<Longrightarrow>
   C \<subseteq> head_children fs hwi i paths \<Longrightarrow> distinct (map fst (children m1)) \<Longrightarrow>
   assemble fs hwi i paths (m1, calls) = assemble fs hwi i paths (m2, calls)"
proof (induction paths arbitrary: i m1 m2 calls B C)
  case Nil
  then have "B = {}" "C = {}" by (simp_all add: head_children_Nil)
  with Nil.prems(1) agree_outside_empty show ?case by auto
next
  case (Cons p rest)
  show ?case
  proof (cases "torch_load_model fs p")
    case (Inl e)
    then show ?thesis by simp
  next
    case (Inr cp)
    from load_body_agree[OF Cons.prems(1), of i "body_state_dict cp" calls]
    show ?thesis
    proof (elim disjE exE conjE)
      fix e
      assume "load_body i (body_state_dict cp) (m1, calls) = Inl e"
        "load_body i (body_state_dict cp) (m2, calls) = Inl e"
      with Inr show ?thesis by simp
    next
      fix m1a m2a calls'
      assume l1: "load_body i (body_state_dict cp) (m1, calls) = Inr (m1a, calls')"
        and l2: "load_body i (body_state_dict cp) (m2, calls) = Inr (m2a, calls')"
        and ag: "agree_outside (B - {i}) C m1a m2a"
        and ch: "children m1a = children m1"
      from Cons.prems(2) have B': "B - {i} \<subseteq> {Suc i..<Suc i + length rest}" by auto
      from ch Cons.prems(4) have dist: "distinct (map fst (children m1a))" by simp
      show ?thesis
      proof (cases "int i = hwi")
        case False
        with Cons.prems(3) have "C \<subseteq> head_children fs hwi (Suc i) rest"
          by (simp add: head_children_Cons)
        from Cons.IH[OF ag B' this dist, of calls'] Inr l1 l2 False show ?thesis by simp
      next
        case True
        show ?thesis
        proof (cases "children_state_dicts cp []")
          case (Inl e)
          with Inr l1 l2 True show ?thesis by (simp add: load_heads_def)
        next
          case csd: (Inr csd)
          from Cons.prems(3) True head_children_here[OF Inr csd, of i rest]
          have C: "C \<subseteq> fst ` set csd" by auto
          from install_children_agree[OF ag dist, of i csd calls']
          show ?thesis
          proof (elim disjE exE conjE)
            fix e
            assume "install_children i csd (m1a, calls') = Inl e"
              "install_children i csd (m2a, calls') = Inl e"
            with Inr l1 l2 True csd show ?thesis by (simp add: load_heads_def)
          next
            fix m1b m2b calls''
            assume i1: "install_children i csd (m1a, calls') = Inr (m1b, calls'')"
              and i2: "install_children i csd (m2a, calls') = Inr (m2b, calls'')"
              and ag': "agree_outside (B - {i}) (C - fst ` set csd) m1b m2b"
              and names: "map fst (children m1b) = map fst (children m1a)"
            from C have "C - fst ` set csd \<subseteq> head_children fs hwi (Suc i) rest" by auto
            moreover from names dist have "distinct (map fst (children m1b))" by simp
            ultimately have "assemble fs hwi (Suc i) rest (m1b, calls'') =
                assemble fs hwi (Suc i) rest (m2b, calls'')"
              using Cons.IH[OF ag' B'] by blast
            with Inr l1 l2 True csd i1 i2 show ?thesis by (simp add: load_heads_def)
          qed
        qed
      qed
    qed
  qed
qed

subsection \<open>Evaluating the examples\<close>

lemmas example_defs = leaf_def checkpoint_a_def checkpoint_b_def checkpoint_c_def
  checkpoint_mask_def example_fs_def example_model_reseeded_def
  example_muxer_def example_model_def example_args_def mark_selection_def

lemmas script_defs = main_def compose_def post_init_def load_body_def load_heads_def
  torch_load_model_def torch_save_def load_state_dict_def body_state_dict_def startswith_def split1_def
  state_dict_def state_entries_def


section \<open>The claims\<close>

subsection \<open>C1\<close>




subsection \<open>C2\<close>

text \<open>
  C2 fails: the key \<^verbatim>\<open>Conv_Body_2.w\<close> has the top-level segment \<^verbatim>\<open>Conv_Body_2\<close>, yet it goes to
  the body partition (under the sub-key \<^verbatim>\<open>w\<close>) and not to the head partition.
\<close>

theorem C2_counterexample:
  "hd (split1 ''Conv_Body_2.w'') \<noteq> ''Conv_Body'' \<and>
   body_state_dict [(''Conv_Body_2.w'', leaf 7)] = [(''w'', leaf 7)] \<and>
   children_state_dicts [(''Conv_Body_2.w'', leaf 7)] [] = Inr []"
  by (simp add: body_state_dict_def startswith_def split1_def)

text \<open>
  C2, amended. A key goes to the body partition exactly when it starts with the characters
  \<^verbatim>\<open>Conv_Body\<close>; its sub-key is what follows the first dot, which for a key
  \<^verbatim>\<open>Conv_Body.rest\<close> is \<^verbatim>\<open>rest\<close>, and every value of the body partition is the value of such
  a key. When the head partition is built, every other key is found there under its
  top-level segment and the remainder, with its own value, and the head partition holds
  nothing else.
\<close>

theorem C2_partition_by_prefix:
  "fst ` set (body_state_dict checkpoint) =
     (\<lambda>key. last (split1 key)) ` {key \<in> fst ` set checkpoint. startswith key ''Conv_Body''} \<and>
   (\<forall>s t. map_of (body_state_dict checkpoint) s = Some t \<longrightarrow>
      (\<exists>key. (key, t) \<in> set checkpoint \<and> startswith key ''Conv_Body'' \<and> last (split1 key) = s)) \<and>
   startswith (''Conv_Body.'' @ rest) ''Conv_Body'' \<and> last (split1 (''Conv_Body.'' @ rest)) = rest \<and>
   (\<forall>csd. children_state_dicts checkpoint [] = Inr csd \<longrightarrow>
      (\<forall>key value. (key, value) \<in> set checkpoint \<and> \<not> startswith key ''Conv_Body'' \<longrightarrow>
         (\<exists>child sub d. split1 key = [child, sub] \<and> map_of csd child = Some d \<and>
            map_of d sub = Some value)) \<and>
      (\<forall>child d sub t. map_of csd child = Some d \<and> map_of d sub = Some t \<longrightarrow>
         (child @ ''.'' @ sub, t) \<in> set checkpoint \<and> \<not> startswith (child @ ''.'' @ sub) ''Conv_Body''))"
proof (intro conjI allI impI)
  show "fst ` set (body_state_dict checkpoint) =
     (\<lambda>key. last (split1 key)) ` {key \<in> fst ` set checkpoint. startswith key ''Conv_Body''}"
    unfolding body_state_dict_def by (simp add: body_fold_keys)
next
  fix s t assume "map_of (body_state_dict checkpoint) s = Some t"
  from body_fold_values[OF this[unfolded body_state_dict_def]]
  show "\<exists>key. (key, t) \<in> set checkpoint \<and> startswith key ''Conv_Body'' \<and> last (split1 key) = s"
    by simp
next
  show "startswith (''Conv_Body.'' @ rest) ''Conv_Body''" by (simp add: startswith_def)
next
  show "last (split1 (''Conv_Body.'' @ rest)) = rest" by (rule split1_last_prefix)
next
  fix csd key "value"
  assume "children_state_dicts checkpoint [] = Inr csd"
    and "(key, value) \<in> set checkpoint \<and> \<not> startswith key ''Conv_Body''"
  then show "\<exists>child sub d. split1 key = [child, sub] \<and> map_of csd child = Some d \<and>
            map_of d sub = Some value"
    using children_state_dicts_complete by blast
next
  fix csd child d sub t
  assume csd: "children_state_dicts checkpoint [] = Inr csd"
    and "map_of csd child = Some d \<and> map_of d sub = Some t"
  then have "map_of csd child = Some d" "map_of d sub = Some t" by simp_all
  from children_state_dicts_sound[OF csd this]
  show "(child @ ''.'' @ sub, t) \<in> set checkpoint" "\<not> startswith (child @ ''.'' @ sub) ''Conv_Body''"
    by simp_all
qed

theorem C2_partition_by_prefix_witness:
  "map_of (body_state_dict checkpoint_a) ''w'' = Some (leaf 10) \<and>
   (\<exists>key. (key, leaf 10) \<in> set checkpoint_a \<and> startswith key ''Conv_Body'' \<and> last (split1 key) = ''w'')"
proof -
  have b: "map_of (body_state_dict checkpoint_a) ''w'' = Some (leaf 10)"
    by (simp add: example_defs script_defs)
  from C2_partition_by_prefix[of checkpoint_a] b show ?thesis by blast
qed

subsection \<open>C3\<close>

lemma example_too_few:
  "main mark_selection (example_args [''a.pth''] 0) (example_model BodyMuxer_Other) example_fs =
     (None, example_fs(''out.pth'' \<mapsto>
        [(''model'', [(''Conv_Body.bodies.0.w'', leaf 10), (''Conv_Body.bodies.1.w'', leaf 1),
                      (''RPN.w'', leaf 11)])]))"
  by (simp add: example_defs script_defs str_nat.simps digit_def enumerate_eq_zip)

text \<open>
  C3 fails: one checkpoint for a model with two backbone slots composes without an error
  and the output file is written, slot 1 keeping the parameters of the fresh model.
\<close>

theorem C3_counterexample:
  "length [''a.pth''] \<noteq> length (bodies (Conv_Body (example_model BodyMuxer_Other))) \<and>
   main mark_selection (example_args [''a.pth''] 0) (example_model BodyMuxer_Other) example_fs =
     (None, example_fs(''out.pth'' \<mapsto>
        [(''model'', [(''Conv_Body.bodies.0.w'', leaf 10), (''Conv_Body.bodies.1.w'', leaf 1),
                      (''RPN.w'', leaf 11)])]))"
  using example_too_few by (simp add: example_defs)

text \<open>
  C3, amended. With more checkpoints than backbone slots the run ends in an exception and
  writes nothing; when the first \<open>N\<close> checkpoints assemble and checkpoint \<open>N\<close> loads, the
  exception is the \<^verbatim>\<open>IndexError\<close> of \<^verbatim>\<open>bodies[N]\<close>.
\<close>

theorem C3_too_many_checkpoints:
  assumes paths: "body_checkpoints args = Some paths"
    and more: "length (bodies (Conv_Body model)) < length paths"
  shows "(\<exists>e. main init args model fs = (Some e, fs)) \<and>
         (\<forall>st cp. assemble fs (head_weights_index args) 0
                     (take (length (bodies (Conv_Body model))) paths) (model, []) = Inr st \<and>
                  torch_load_model fs (paths ! length (bodies (Conv_Body model))) = Inr cp \<longrightarrow>
                  main init args model fs = (Some IndexError, fs))"
proof (intro conjI allI impI)
  from assemble_too_many[OF more] obtain e where
    "assemble fs (head_weights_index args) 0 paths (model, []) = Inl e" by blast
  with paths show "\<exists>e. main init args model fs = (Some e, fs)"
    by (simp add: main_def compose_def)
next
  fix st cp
  let ?n = "length (bodies (Conv_Body model))"
  assume a: "assemble fs (head_weights_index args) 0 (take ?n paths) (model, []) = Inr st \<and>
             torch_load_model fs (paths ! ?n) = Inr cp"
  obtain m1 calls1 where st: "st = (m1, calls1)" by (cases st)
  from a st assemble_frame have len: "length (bodies (Conv_Body m1)) = ?n" by blast
  have split: "paths = take ?n paths @ (paths ! ?n) # drop (Suc ?n) paths"
    using more by (simp add: id_take_nth_drop)
  have "assemble fs (head_weights_index args) 0 paths (model, []) =
          assemble fs (head_weights_index args) ?n ((paths ! ?n) # drop (Suc ?n) paths) st"
    using a more by (subst split, subst assemble_append) (simp add: min_def)
  also have "\<dots> = Inl IndexError"
    using a len by (simp add: st load_body_def)
  finally show "main init args model fs = (Some IndexError, fs)"
    using paths by (simp add: main_def compose_def)
qed

theorem C3_too_many_checkpoints_witness:
  "length (bodies (Conv_Body (example_model BodyMuxer_Other))) < length [''a.pth'', ''b.pth'', ''c.pth''] \<and>
   main mark_selection (example_args [''a.pth'', ''b.pth'', ''c.pth''] 0)
     (example_model BodyMuxer_Other) example_fs = (Some IndexError, example_fs)"
proof -
  have paths: "body_checkpoints (example_args [''a.pth'', ''b.pth'', ''c.pth''] 0) =
      Some [''a.pth'', ''b.pth'', ''c.pth'']"
    by (simp add: example_defs)
  have more: "length (bodies (Conv_Body (example_model BodyMuxer_Other))) <
      length [''a.pth'', ''b.pth'', ''c.pth'']"
    by (simp add: example_defs)
  have run: "\<exists>st cp. assemble example_fs (head_weights_index (example_args [''a.pth'', ''b.pth'', ''c.pth''] 0)) 0
       (take (length (bodies (Conv_Body (example_model BodyMuxer_Other)))) [''a.pth'', ''b.pth'', ''c.pth''])
       (example_model BodyMuxer_Other, []) = Inr st \<and>
     torch_load_model example_fs
       ([''a.pth'', ''b.pth'', ''c.pth''] ! length (bodies (Conv_Body (example_model BodyMuxer_Other)))) = Inr cp"
    by (simp add: example_defs script_defs)
  from C3_too_many_checkpoints[OF paths more, of mark_selection example_fs] run more
  show ?thesis by blast
qed

subsection \<open>C4\<close>





subsection \<open>C5\<close>

text \<open>
  C5. A run that ends in an exception leaves the file system as it was. A run writes the
  output file only when the whole composition returned: every checkpoint loaded, every
  body partition fitted its slot, the head partition of the head-weights checkpoint was
  built and each of its children fitted a child of the model, and the selection step, when
  the muxer has one, returned.
\<close>

theorem C5_write_only_after_assembly:
  "(fst (main init args model fs) \<noteq> None \<longrightarrow> snd (main init args model fs) = fs) \<and>
   (fst (main init args model fs) = None \<longrightarrow>
      (\<exists>paths model' calls. body_checkpoints args = Some paths \<and>
         compose init (head_weights_index args) paths model fs = Inr (model', calls) \<and>
         snd (main init args model fs) = torch_save model' (output_model args) fs \<and>
         (\<forall>i < length paths. \<exists>cp b. torch_load_model fs (paths ! i) = Inr cp \<and>
             i < length (bodies (Conv_Body model)) \<and>
             load_state_dict (bodies (Conv_Body model) ! i) (body_state_dict cp) = Inr b \<and>
             (int i = head_weights_index args \<longrightarrow>
                (\<exists>csd. children_state_dicts cp [] = Inr csd \<and>
                   (\<forall>(c, d) \<in> set csd. \<exists>mc mc'. map_of (children model) c = Some mc \<and>
                       load_state_dict mc d = Inr mc')))) \<and>
         (muxer_class (Conv_Body model) = BodyMuxer_ConcatenateConv \<longrightarrow>
            (\<exists>ws. init (head_weights_index args) (own (Conv_Body model)) = Inr ws))))"
proof (intro conjI impI)
  assume "fst (main init args model fs) \<noteq> None"
  with main_cases[of init args model fs] show "snd (main init args model fs) = fs" by auto
next
  assume ok: "fst (main init args model fs) = None"
  with main_cases[of init args model fs] obtain paths m' calls where
    paths: "body_checkpoints args = Some paths"
    and comp: "compose init (head_weights_index args) paths model fs = Inr (m', calls)"
    and res: "main init args model fs = (None, torch_save m' (output_model args) fs)"
    by auto
  from compose_Inr[OF comp] obtain ma callsa where
    run: "assemble fs (head_weights_index args) 0 paths (model, []) = Inr (ma, callsa)"
    and post: "post_init init (head_weights_index args) (ma, callsa) = Inr (m', calls)"
    by blast
  have hook: "muxer_class (Conv_Body model) = BodyMuxer_ConcatenateConv \<longrightarrow>
            (\<exists>ws. init (head_weights_index args) (own (Conv_Body model)) = Inr ws)"
    using post_init_Inr[OF post] assemble_frame[OF run] by auto
  from paths comp res assemble_steps_ok[OF run] hook
  show "\<exists>paths model' calls. body_checkpoints args = Some paths \<and>
         compose init (head_weights_index args) paths model fs = Inr (model', calls) \<and>
         snd (main init args model fs) = torch_save model' (output_model args) fs \<and>
         (\<forall>i < length paths. \<exists>cp b. torch_load_model fs (paths ! i) = Inr cp \<and>
             i < length (bodies (Conv_Body model)) \<and>
             load_state_dict (bodies (Conv_Body model) ! i) (body_state_dict cp) = Inr b \<and>
             (int i = head_weights_index args \<longrightarrow>
                (\<exists>csd. children_state_dicts cp [] = Inr csd \<and>
                   (\<forall>(c, d) \<in> set csd. \<exists>mc mc'. map_of (children model) c = Some mc \<and>
                       load_state_dict mc d = Inr mc')))) \<and>
         (muxer_class (Conv_Body model) = BodyMuxer_ConcatenateConv \<longrightarrow>
            (\<exists>ws. init (head_weights_index args) (own (Conv_Body model)) = Inr ws))"
    by (intro exI[of _ paths] exI[of _ m'] exI[of _ calls]) simp
qed

lemma example_missing_file:
  "fst (main mark_selection (example_args [''a.pth'', ''missing.pth''] 0)
          (example_model BodyMuxer_Other) example_fs) = Some FileNotFoundError"
  by (simp add: example_defs script_defs)

theorem C5_write_only_after_assembly_witness:
  "fst (main mark_selection (example_args [''a.pth'', ''missing.pth''] 0)
          (example_model BodyMuxer_Other) example_fs) = Some FileNotFoundError \<and>
   snd (main mark_selection (example_args [''a.pth'', ''missing.pth''] 0)
          (example_model BodyMuxer_Other) example_fs) = example_fs"
  using C5_write_only_after_assembly[of mark_selection "example_args [''a.pth'', ''missing.pth''] 0"
      "example_model BodyMuxer_Other" example_fs] example_missing_file
  by simp

subsection \<open>C6\<close>

text \<open>
  C6. A checkpoint is a dict, so its keys are distinct. Two distinct keys never split into
  the same child and sub-key (the key is the child, a dot and the sub-key), and the
  \<^verbatim>\<open>assert\<close> of line 74 never fails: for such a checkpoint both sides of the
  equivalence are false.
\<close>

theorem C6_assert_never_fires:
  assumes "distinct (map fst checkpoint)"
  shows "(children_state_dicts checkpoint [] = Inl AssertionError \<longleftrightarrow>
           (\<exists>k1 k2 child sub. k1 \<in> fst ` set checkpoint \<and> k2 \<in> fst ` set checkpoint \<and> k1 \<noteq> k2 \<and>
              \<not> startswith k1 ''Conv_Body'' \<and> \<not> startswith k2 ''Conv_Body'' \<and>
              split1 k1 = [child, sub] \<and> split1 k2 = [child, sub])) \<and>
         children_state_dicts checkpoint [] \<noteq> Inl AssertionError"
proof -
  have no: "children_state_dicts checkpoint [] \<noteq> Inl AssertionError"
    using assms by (intro children_state_dicts_no_assert) simp_all
  moreover have "\<not> (\<exists>k1 k2 child sub. k1 \<in> fst ` set checkpoint \<and> k2 \<in> fst ` set checkpoint \<and> k1 \<noteq> k2 \<and>
              \<not> startswith k1 ''Conv_Body'' \<and> \<not> startswith k2 ''Conv_Body'' \<and>
              split1 k1 = [child, sub] \<and> split1 k2 = [child, sub])"
    using split1_inj by blast
  ultimately show ?thesis by blast
qed

theorem C6_assert_never_fires_witness:
  "distinct (map fst checkpoint_mask) \<and>
   children_state_dicts checkpoint_mask [] \<noteq> Inl AssertionError"
proof -
  have d: "distinct (map fst checkpoint_mask)" by (simp add: checkpoint_mask_def)
  from C6_assert_never_fires[OF d] d show ?thesis by blast
qed

subsection \<open>C7\<close>



subsection \<open>C8\<close>

text \<open>
  C8. For a muxer that is no \<^verbatim>\<open>BodyMuxer_ConcatenateConv\<close> the composition is the assembly
  loop and nothing else. In a composition that returns, \<^verbatim>\<open>init_conv_select_index_\<close> is
  called with \<open>k\<close> exactly when the target model's muxer is a
  \<^verbatim>\<open>BodyMuxer_ConcatenateConv\<close> and \<open>k\<close> is the head-weights index; it is then applied to
  the muxer's own parameters, after the loop.
\<close>

theorem C8_post_assembly_step:
  "(muxer_class (Conv_Body model) \<noteq> BodyMuxer_ConcatenateConv \<longrightarrow>
      compose init hwi paths model fs = assemble fs hwi 0 paths (model, [])) \<and>
   (\<forall>model' calls. compose init hwi paths model fs = Inr (model', calls) \<longrightarrow>
      (\<forall>k. Init_Conv_Select k \<in> set calls \<longleftrightarrow>
            muxer_class (Conv_Body model) = BodyMuxer_ConcatenateConv \<and> k = hwi)) \<and>
   (muxer_class (Conv_Body model) = BodyMuxer_ConcatenateConv \<longrightarrow>
      (\<forall>ma callsa. assemble fs hwi 0 paths (model, []) = Inr (ma, callsa) \<longrightarrow>
         compose init hwi paths model fs =
           (case init hwi (own (Conv_Body model)) of
              Inl e \<Rightarrow> Inl e
            | Inr ws \<Rightarrow> Inr (ma\<lparr>Conv_Body := (Conv_Body ma)\<lparr>own := ws\<rparr>\<rparr>,
                            callsa @ [Init_Conv_Select hwi]))))"
proof (intro conjI impI allI)
  assume other: "muxer_class (Conv_Body model) \<noteq> BodyMuxer_ConcatenateConv"
  show "compose init hwi paths model fs = assemble fs hwi 0 paths (model, [])"
  proof (cases "assemble fs hwi 0 paths (model, [])")
    case (Inl e)
    then show ?thesis by (simp add: compose_def)
  next
    case (Inr st)
    obtain ma callsa where st: "st = (ma, callsa)" by (cases st)
    from assemble_frame[OF Inr[unfolded st]] other
    have "muxer_class (Conv_Body ma) \<noteq> BodyMuxer_ConcatenateConv" by simp
    with Inr st show ?thesis by (simp add: compose_def post_init_def)
  qed
next
  fix model' calls k
  assume comp: "compose init hwi paths model fs = Inr (model', calls)"
  from compose_Inr[OF comp] obtain ma callsa where
    run: "assemble fs hwi 0 paths (model, []) = Inr (ma, callsa)"
    and post: "post_init init hwi (ma, callsa) = Inr (model', calls)"
    by blast
  from assemble_calls[OF run] have no_init: "Init_Conv_Select k \<notin> set callsa" by auto
  from assemble_frame[OF run]
  have cls: "muxer_class (Conv_Body ma) = muxer_class (Conv_Body model)" by simp
  from post_init_Inr[OF post] no_init cls
  show "Init_Conv_Select k \<in> set calls \<longleftrightarrow>
            muxer_class (Conv_Body model) = BodyMuxer_ConcatenateConv \<and> k = hwi"
    by auto
next
  fix ma callsa
  assume cc: "muxer_class (Conv_Body model) = BodyMuxer_ConcatenateConv"
    and run: "assemble fs hwi 0 paths (model, []) = Inr (ma, callsa)"
  from assemble_frame[OF run] cc
  have "muxer_class (Conv_Body ma) = BodyMuxer_ConcatenateConv"
    and "own (Conv_Body ma) = own (Conv_Body model)" by simp_all
  with run show "compose init hwi paths model fs =
           (case init hwi (own (Conv_Body model)) of
              Inl e \<Rightarrow> Inl e
            | Inr ws \<Rightarrow> Inr (ma\<lparr>Conv_Body := (Conv_Body ma)\<lparr>own := ws\<rparr>\<rparr>,
                            callsa @ [Init_Conv_Select hwi]))"
    by (simp add: compose_def post_init_def)
qed

lemma example_compose_cc:
  "compose mark_selection 1 [''a.pth'', ''b.pth''] (example_model BodyMuxer_ConcatenateConv) example_fs =
     Inr (\<lparr>Conv_Body = \<lparr>muxer_class = BodyMuxer_ConcatenateConv,
                         bodies = [[(''w'', leaf 10)], [(''w'', leaf 20)]],
                         own = [(''conv.weight'', leaf 1)]\<rparr>,
            children = [(''RPN'', [(''w'', leaf 21)])]\<rparr>,
          [Load_Body 0 0, Load_Body 1 1, Load_Child ''RPN'' 1, Init_Conv_Select 1])"
  by (simp add: example_defs script_defs)

theorem C8_post_assembly_step_witness:
  "compose mark_selection 1 [''a.pth'', ''b.pth''] (example_model BodyMuxer_Other) example_fs =
     assemble example_fs 1 0 [''a.pth'', ''b.pth''] (example_model BodyMuxer_Other, []) \<and>
   Init_Conv_Select 1 \<in> set [Load_Body 0 0, Load_Body 1 1, Load_Child ''RPN'' 1, Init_Conv_Select 1] \<and>
   muxer_class (Conv_Body (example_model BodyMuxer_ConcatenateConv)) = BodyMuxer_ConcatenateConv"
proof -
  have other: "muxer_class (Conv_Body (example_model BodyMuxer_Other)) \<noteq> BodyMuxer_ConcatenateConv"
    by (simp add: example_defs)
  have cc: "muxer_class (Conv_Body (example_model BodyMuxer_ConcatenateConv)) = BodyMuxer_ConcatenateConv"
    by (simp add: example_defs)
  from C8_post_assembly_step[of "example_model BodyMuxer_Other" mark_selection 1
      "[''a.pth'', ''b.pth'']" example_fs] other
  have 1: "compose mark_selection 1 [''a.pth'', ''b.pth''] (example_model BodyMuxer_Other) example_fs =
     assemble example_fs 1 0 [''a.pth'', ''b.pth''] (example_model BodyMuxer_Other, [])"
    by blast
  from C8_post_assembly_step[of "example_model BodyMuxer_ConcatenateConv" mark_selection 1
      "[''a.pth'', ''b.pth'']" example_fs] example_compose_cc cc
  have 2: "Init_Conv_Select 1 \<in> set [Load_Body 0 0, Load_Body 1 1, Load_Child ''RPN'' 1, Init_Conv_Select 1]"
    by blast
  from 1 2 cc show ?thesis by blast
qed

subsection \<open>C9\<close>

text \<open>
  C9 fails: the same two checkpoints and the same head-weights index, composed into two
  fresh models of one architecture whose initial values differ, give two different output
  files, since the leaf \<^verbatim>\<open>RPN.w\<close> is not loaded and keeps its initial value.
\<close>

theorem C9_counterexample:
  "main mark_selection (example_args [''a.pth'', ''c.pth''] 1) (example_model BodyMuxer_Other) example_fs =
     (None, example_fs(''out.pth'' \<mapsto>
        [(''model'', [(''Conv_Body.bodies.0.w'', leaf 10), (''Conv_Body.bodies.1.w'', leaf 30),
                      (''RPN.w'', leaf 3)])])) \<and>
   main mark_selection (example_args [''a.pth'', ''c.pth''] 1) (example_model_reseeded BodyMuxer_Other) example_fs =
     (None, example_fs(''out.pth'' \<mapsto>
        [(''model'', [(''Conv_Body.bodies.0.w'', leaf 10), (''Conv_Body.bodies.1.w'', leaf 30),
                      (''RPN.w'', leaf 4)])])) \<and>
   leaf 3 \<noteq> leaf 4"
  by (simp add: example_defs script_defs str_nat.simps digit_def enumerate_eq_zip)

text \<open>
  C9, amended. Take two fresh models of one architecture that agree on every parameter the
  run does not load: the muxer's own parameters, the slots beyond the checkpoints, the
  children that the head-weights checkpoint does not name. For the same checkpoints and
  the same index the two runs end alike: in the same exception, or with the same output
  file. The initial values of the loaded parameters do not reach the output.
\<close>

theorem C9_output_independent_of_loaded_values:
  assumes agree: "agree_outside {0..<length paths} (head_children fs hwi 0 paths) m1 m2"
    and dist: "distinct (map fst (children m1))"
    and paths: "body_checkpoints args = Some paths"
    and hwi: "head_weights_index args = hwi"
  shows "main init args m1 fs = main init args m2 fs"
proof -
  have "assemble fs hwi 0 paths (m1, []) = assemble fs hwi 0 paths (m2, [])"
    using assemble_agree[OF agree _ _ dist, where i = 0 and fs = fs and hwi = hwi and calls = "[]"] by simp
  then have "compose init hwi paths m1 fs = compose init hwi paths m2 fs"
    by (simp add: compose_def)
  with paths hwi show ?thesis by (simp add: main_def)
qed

theorem C9_output_independent_of_loaded_values_witness:
  "agree_outside {0..<length [''a.pth'', ''b.pth'']} (head_children example_fs 1 0 [''a.pth'', ''b.pth''])
     (example_model BodyMuxer_Other) (example_model_reseeded BodyMuxer_Other) \<and>
   example_model BodyMuxer_Other \<noteq> example_model_reseeded BodyMuxer_Other \<and>
   main mark_selection (example_args [''a.pth'', ''b.pth''] 1) (example_model BodyMuxer_Other) example_fs =
   main mark_selection (example_args [''a.pth'', ''b.pth''] 1) (example_model_reseeded BodyMuxer_Other) example_fs"
proof -
  have agree: "agree_outside {0..<length [''a.pth'', ''b.pth'']}
      (head_children example_fs 1 0 [''a.pth'', ''b.pth''])
      (example_model BodyMuxer_Other) (example_model_reseeded BodyMuxer_Other)"
    by (simp add: agree_outside_def children_agree_def head_children_def signature_def
        example_defs script_defs less_Suc_eq)
  have dist: "distinct (map fst (children (example_model BodyMuxer_Other)))"
    by (simp add: example_defs)
  have paths: "body_checkpoints (example_args [''a.pth'', ''b.pth''] 1) = Some [''a.pth'', ''b.pth'']"
    and hwi: "head_weights_index (example_args [''a.pth'', ''b.pth''] 1) = 1"
    by (simp_all add: example_defs)
  have ne: "example_model BodyMuxer_Other \<noteq> example_model_reseeded BodyMuxer_Other"
    by (simp add: example_defs)
  from C9_output_independent_of_loaded_values[OF agree dist paths hwi, of mark_selection] agree ne
  show ?thesis by blast
qed

subsection \<open>C10\<close>



end
